theory Spec2Isabelle
  imports Complex_Main "HOL-Library.Sublist" "HOL-Library.List_Lexorder"
begin

section \<open>JavaScript strings\<close>

text \<open>
  A JavaScript string is a sequence of UTF-16 code units; \<open>length\<close>, \<open>slice\<close>,
  \<open>indexOf\<close>, \<open>trim\<close> and the regular expressions of the sources (none has the
  \<open>u\<close> flag) all work on code units. A code unit is modelled by its number, a string by
  the list of its code units. \<open>js\<close> turns an ASCII literal into such a list.
\<close>

type_synonym jsstring = "nat list"

definition js :: "string \<Rightarrow> jsstring" where
  "js s = map of_char s"

text \<open>
  White space as \<open>String.prototype.trim\<close> and the regular expression class \<open>\s\<close>
  read it: TAB, LF, VT, FF, CR, SP, NBSP, U+1680, U+2000 to U+200A, U+2028, U+2029,
  U+202F, U+205F, U+3000 and U+FEFF.
\<close>

definition is_ws :: "nat \<Rightarrow> bool" where
  "is_ws c \<longleftrightarrow>
     c = 9 \<or> c = 10 \<or> c = 11 \<or> c = 12 \<or> c = 13 \<or> c = 32 \<or> c = 160 \<or> c = 5760 \<or>
     (8192 \<le> c \<and> c \<le> 8202) \<or> c = 8232 \<or> c = 8233 \<or> c = 8239 \<or> c = 8287 \<or>
     c = 12288 \<or> c = 65279"

definition trimStart :: "jsstring \<Rightarrow> jsstring" where
  "trimStart s = dropWhile is_ws s"

definition trimEnd :: "jsstring \<Rightarrow> jsstring" where
  "trimEnd s = rev (dropWhile is_ws (rev s))"

definition trim :: "jsstring \<Rightarrow> jsstring" where
  "trim s = trimEnd (trimStart s)"

text \<open>\<open>s.split(sep)\<close> for a separator of one code unit: never the empty list.\<close>

fun split_on :: "nat \<Rightarrow> jsstring \<Rightarrow> jsstring list" where
  "split_on sep [] = [[]]"
| "split_on sep (c # cs) =
     (if c = sep then [] # split_on sep cs
      else (case split_on sep cs of
              [] \<Rightarrow> [[c]]
            | l # ls \<Rightarrow> (c # l) # ls))"

text \<open>\<open>parts.join(sep)\<close>.\<close>

fun join :: "jsstring \<Rightarrow> jsstring list \<Rightarrow> jsstring" where
  "join sep [] = []"
| "join sep [x] = x"
| "join sep (x # y # ys) = x @ sep @ join sep (y # ys)"

text \<open>\<open>s.indexOf(needle)\<close>: the first position where \<open>needle\<close> starts, \<open>None\<close> for -1.\<close>

fun indexOf :: "jsstring \<Rightarrow> jsstring \<Rightarrow> nat option" where
  "indexOf [] needle = (if needle = [] then Some 0 else None)"
| "indexOf (c # cs) needle =
     (if prefix needle (c # cs) then Some 0 else map_option Suc (indexOf cs needle))"

definition startsWith :: "jsstring \<Rightarrow> jsstring \<Rightarrow> bool" where
  "startsWith s p = prefix p s"

section \<open>Structured store\<close>

text \<open>
  Modelled from the spec: the store module (\<open>src/lib/db.ts\<close>) is not among the sources;
  only its callers and its tests are. The rows follow the schema of the design plan and
  the fields the tests read; the operations follow section 4.1 of the specification.
\<close>

record session_row =
  s_id :: jsstring
  s_title :: "jsstring option"
  s_summary :: "jsstring option"
  s_created_at :: jsstring
  s_updated_at :: jsstring
  s_tags :: "jsstring list"

record message_row =
  m_id :: nat
  m_session_id :: jsstring
  m_role :: jsstring
  m_content :: jsstring
  m_timestamp :: jsstring
  m_token_count :: "nat option"

record memory_row =
  mem_id :: nat
  fact :: jsstring
  category :: jsstring
  source_session :: "jsstring option"
  mem_created_at :: jsstring
  superseded_by :: "nat option"

record store =
  sessions :: "session_row list"
  messages :: "message_row list"
  memories :: "memory_row list"
  next_message_id :: nat
  next_memory_id :: nat

datatype db_error = DuplicateKey | NotFound | ForeignKeyViolation | InvalidArgument

definition empty_store :: store where
  "empty_store =
     \<lparr>sessions = [], messages = [], memories = [], next_message_id = 1, next_memory_id = 1\<rparr>"

definition dbGetSession :: "store \<Rightarrow> jsstring \<Rightarrow> session_row option" where
  "dbGetSession st i = find (\<lambda>r. s_id r = i) (sessions st)"

definition dbCreateSession :: "store \<Rightarrow> jsstring \<Rightarrow> jsstring \<Rightarrow> jsstring \<Rightarrow> db_error + store" where
  "dbCreateSession st i title createdAt =
     (if dbGetSession st i \<noteq> None then Inl DuplicateKey
      else Inr (st\<lparr>sessions := sessions st @
             [\<lparr>s_id = i, s_title = Some title, s_summary = None, s_created_at = createdAt,
               s_updated_at = createdAt, s_tags = []\<rparr>]\<rparr>))"

record session_update =
  u_title :: "jsstring option"
  u_summary :: "jsstring option"
  u_tags :: "jsstring list option"
  u_updatedAt :: "jsstring option"

definition no_update :: session_update where
  "no_update = \<lparr>u_title = None, u_summary = None, u_tags = None, u_updatedAt = None\<rparr>"

definition update_row :: "session_update \<Rightarrow> session_row \<Rightarrow> session_row" where
  "update_row u r =
     r\<lparr>s_title := (case u_title u of None \<Rightarrow> s_title r | Some t \<Rightarrow> Some t),
       s_summary := (case u_summary u of None \<Rightarrow> s_summary r | Some t \<Rightarrow> Some t),
       s_tags := (case u_tags u of None \<Rightarrow> s_tags r | Some t \<Rightarrow> t),
       s_updated_at := (case u_updatedAt u of None \<Rightarrow> s_updated_at r | Some t \<Rightarrow> t)\<rparr>"

definition dbUpdateSession :: "store \<Rightarrow> jsstring \<Rightarrow> session_update \<Rightarrow> store" where
  "dbUpdateSession st i u =
     st\<lparr>sessions := map (\<lambda>r. if s_id r = i then update_row u r else r) (sessions st)\<rparr>"

definition dbListSessions :: "store \<Rightarrow> nat \<Rightarrow> session_row list" where
  "dbListSessions st limit = take limit (rev (sort_key s_created_at (sessions st)))"

definition valid_role :: "jsstring \<Rightarrow> bool" where
  "valid_role r \<longleftrightarrow> r = js ''user'' \<or> r = js ''assistant'' \<or> r = js ''system''"

definition dbInsertMessage ::
  "store \<Rightarrow> jsstring \<Rightarrow> jsstring \<Rightarrow> jsstring \<Rightarrow> jsstring \<Rightarrow> nat option \<Rightarrow> db_error + (nat \<times> store)" where
  "dbInsertMessage st sid role content ts tokenCount =
     (if dbGetSession st sid = None then Inl ForeignKeyViolation
      else if \<not> valid_role role then Inl InvalidArgument
      else Inr (next_message_id st,
                st\<lparr>messages := messages st @
                      [\<lparr>m_id = next_message_id st, m_session_id = sid, m_role = role,
                        m_content = content, m_timestamp = ts, m_token_count = tokenCount\<rparr>],
                   next_message_id := Suc (next_message_id st)\<rparr>))"

definition dbGetMessages :: "store \<Rightarrow> jsstring \<Rightarrow> message_row list" where
  "dbGetMessages st sid = filter (\<lambda>m. m_session_id m = sid) (messages st)"

definition dbInsertMemory ::
  "store \<Rightarrow> jsstring \<Rightarrow> jsstring \<Rightarrow> jsstring option \<Rightarrow> jsstring \<Rightarrow> nat \<times> store" where
  "dbInsertMemory st f cat src createdAt =
     (next_memory_id st,
      st\<lparr>memories := memories st @
            [\<lparr>mem_id = next_memory_id st, fact = f, category = cat, source_session = src,
              mem_created_at = createdAt, superseded_by = None\<rparr>],
         next_memory_id := Suc (next_memory_id st)\<rparr>)"

definition active :: "memory_row \<Rightarrow> bool" where
  "active m \<longleftrightarrow> superseded_by m = None"

definition dbGetActiveMemories :: "store \<Rightarrow> memory_row list" where
  "dbGetActiveMemories st = sort_key mem_created_at (filter active (memories st))"

definition dbFindMemoryByFact :: "store \<Rightarrow> jsstring \<Rightarrow> memory_row option" where
  "dbFindMemoryByFact st exactText = find (\<lambda>m. fact m = exactText \<and> active m) (memories st)"

definition has_memory :: "store \<Rightarrow> nat \<Rightarrow> bool" where
  "has_memory st i = list_ex (\<lambda>m. mem_id m = i) (memories st)"

definition dbSupersedeMemory :: "store \<Rightarrow> nat \<Rightarrow> nat \<Rightarrow> db_error + store" where
  "dbSupersedeMemory st oldId newId =
     (if \<not> has_memory st oldId \<or> \<not> has_memory st newId then Inl NotFound
      else Inr (st\<lparr>memories :=
                  map (\<lambda>m. if mem_id m = oldId then m\<lparr>superseded_by := Some newId\<rparr> else m)
                    (memories st)\<rparr>))"

definition dbDeleteSession :: "store \<Rightarrow> jsstring \<Rightarrow> store" where
  "dbDeleteSession st i =
     st\<lparr>sessions := filter (\<lambda>r. s_id r \<noteq> i) (sessions st),
        messages := filter (\<lambda>m. m_session_id m \<noteq> i) (messages st)\<rparr>"

text \<open>
  Full-text search. The matching and ranking of the index are the index's own; the model
  takes them as parameters: \<open>mt query content\<close> says whether a content matches,
  \<open>rk query content\<close> ranks it (smaller first). A hit is the row it comes from; a result
  carries the matched text, the source tag, and for a message its session's id and title.
\<close>

datatype hit = MessageHit message_row | MemoryHit memory_row

fun hit_content :: "hit \<Rightarrow> jsstring" where
  "hit_content (MessageHit m) = m_content m"
| "hit_content (MemoryHit m) = fact m"

record search_result =
  r_content :: jsstring
  r_source :: jsstring
  r_sessionId :: "jsstring option"
  r_sessionTitle :: "jsstring option"

fun result_of :: "store \<Rightarrow> hit \<Rightarrow> search_result" where
  "result_of st (MessageHit m) =
     \<lparr>r_content = m_content m, r_source = js ''message'', r_sessionId = Some (m_session_id m),
      r_sessionTitle = (case dbGetSession st (m_session_id m) of
                          None \<Rightarrow> None | Some r \<Rightarrow> s_title r)\<rparr>"
| "result_of st (MemoryHit m) =
     \<lparr>r_content = fact m, r_source = js ''memory'', r_sessionId = None, r_sessionTitle = None\<rparr>"

definition message_hits :: "(jsstring \<Rightarrow> jsstring \<Rightarrow> bool) \<Rightarrow> store \<Rightarrow> jsstring \<Rightarrow> hit list" where
  "message_hits mt st q = map MessageHit (filter (\<lambda>m. mt q (m_content m)) (messages st))"

definition memory_hits :: "(jsstring \<Rightarrow> jsstring \<Rightarrow> bool) \<Rightarrow> store \<Rightarrow> jsstring \<Rightarrow> hit list" where
  "memory_hits mt st q =
     map MemoryHit (filter (\<lambda>m. active m \<and> mt q (fact m)) (memories st))"

definition ranked ::
  "(jsstring \<Rightarrow> jsstring \<Rightarrow> int) \<Rightarrow> jsstring \<Rightarrow> nat \<Rightarrow> hit list \<Rightarrow> hit list" where
  "ranked rk q limit hs = take limit (sort_key (\<lambda>h. rk q (hit_content h)) hs)"

definition dbSearchMessages ::
  "(jsstring \<Rightarrow> jsstring \<Rightarrow> bool) \<Rightarrow> (jsstring \<Rightarrow> jsstring \<Rightarrow> int) \<Rightarrow> store \<Rightarrow> jsstring \<Rightarrow> nat
     \<Rightarrow> search_result list" where
  "dbSearchMessages mt rk st q limit = map (result_of st) (ranked rk q limit (message_hits mt st q))"

definition searchMemoryHits ::
  "(jsstring \<Rightarrow> jsstring \<Rightarrow> bool) \<Rightarrow> (jsstring \<Rightarrow> jsstring \<Rightarrow> int) \<Rightarrow> store \<Rightarrow> jsstring \<Rightarrow> nat
     \<Rightarrow> hit list" where
  "searchMemoryHits mt rk st q limit = ranked rk q limit (memory_hits mt st q)"

definition dbSearchMemories ::
  "(jsstring \<Rightarrow> jsstring \<Rightarrow> bool) \<Rightarrow> (jsstring \<Rightarrow> jsstring \<Rightarrow> int) \<Rightarrow> store \<Rightarrow> jsstring \<Rightarrow> nat
     \<Rightarrow> search_result list" where
  "dbSearchMemories mt rk st q limit = map (result_of st) (searchMemoryHits mt rk st q limit)"

definition searchHits ::
  "(jsstring \<Rightarrow> jsstring \<Rightarrow> bool) \<Rightarrow> (jsstring \<Rightarrow> jsstring \<Rightarrow> int) \<Rightarrow> store \<Rightarrow> jsstring \<Rightarrow> nat
     \<Rightarrow> hit list" where
  "searchHits mt rk st q limit = ranked rk q limit (message_hits mt st q @ memory_hits mt st q)"

definition dbSearch ::
  "(jsstring \<Rightarrow> jsstring \<Rightarrow> bool) \<Rightarrow> (jsstring \<Rightarrow> jsstring \<Rightarrow> int) \<Rightarrow> store \<Rightarrow> jsstring \<Rightarrow> nat
     \<Rightarrow> search_result list" where
  "dbSearch mt rk st q limit = map (result_of st) (searchHits mt rk st q limit)"

text \<open>
  The operations that write the store, as values, and a run of them. An operation that
  fails leaves the store as it was (the caller sees the error; the next operation runs on
  the unchanged store).
\<close>

datatype store_op =
    CreateSession jsstring jsstring jsstring
  | UpdateSession jsstring session_update
  | DeleteSession jsstring
  | InsertMessage jsstring jsstring jsstring jsstring "nat option"
  | InsertMemory jsstring jsstring "jsstring option" jsstring
  | SupersedeMemory nat nat

fun apply_op :: "store \<Rightarrow> store_op \<Rightarrow> store" where
  "apply_op st (CreateSession i t c) = (case dbCreateSession st i t c of Inl e \<Rightarrow> st | Inr st' \<Rightarrow> st')"
| "apply_op st (UpdateSession i u) = dbUpdateSession st i u"
| "apply_op st (DeleteSession i) = dbDeleteSession st i"
| "apply_op st (InsertMessage sid r c ts tc) =
     (case dbInsertMessage st sid r c ts tc of Inl e \<Rightarrow> st | Inr (i, st') \<Rightarrow> st')"
| "apply_op st (InsertMemory f cat src c) = snd (dbInsertMemory st f cat src c)"
| "apply_op st (SupersedeMemory a b) = (case dbSupersedeMemory st a b of Inl e \<Rightarrow> st | Inr st' \<Rightarrow> st')"

definition run_ops :: "store \<Rightarrow> store_op list \<Rightarrow> store" where
  "run_ops st ops = foldl apply_op st ops"

fun supersedes :: "nat \<Rightarrow> store_op \<Rightarrow> bool" where
  "supersedes i (SupersedeMemory a b) = (a = i)"
| "supersedes i other = False"

text \<open>
  Invariants of a run: every stored memory id is below the next id to be given out; a
  memory id is hidden when no row with it is active; it is visible with a fact when an
  active row carries both.
\<close>

definition store_ok :: "store \<Rightarrow> bool" where
  "store_ok st \<longleftrightarrow> list_all (\<lambda>m. mem_id m < next_memory_id st) (memories st)"

definition hidden :: "nat \<Rightarrow> store \<Rightarrow> bool" where
  "hidden i st \<longleftrightarrow> i < next_memory_id st \<and> list_all (\<lambda>m. mem_id m = i \<longrightarrow> \<not> active m) (memories st)"

definition visible :: "nat \<Rightarrow> jsstring \<Rightarrow> store \<Rightarrow> bool" where
  "visible i f st \<longleftrightarrow> list_ex (\<lambda>m. mem_id m = i \<and> fact m = f \<and> active m) (memories st)"

section \<open>Process state and environment\<close>

text \<open>
  What a JavaScript function can throw here: an error of the store, a \<open>TypeError\<close> of
  the runtime, or the failure of an external service or of the file system.
\<close>

datatype js_error = DbError db_error | TypeError jsstring | ServiceError jsstring

text \<open>\<open>String(n)\<close> for a non-negative integer, and \<open>s.padStart(n, "0")\<close>.\<close>

fun decimal :: "nat \<Rightarrow> jsstring" where
  "decimal n = (if n < 10 then [48 + n] else decimal (n div 10) @ [48 + n mod 10])"

declare decimal.simps [simp del]

definition padStart0 :: "nat \<Rightarrow> jsstring \<Rightarrow> jsstring" where
  "padStart0 n s = replicate (n - length s) 48 @ s"

definition endsWith :: "jsstring \<Rightarrow> jsstring \<Rightarrow> bool" where
  "endsWith s p = suffix p s"

text \<open>Truthiness of an environment variable: set and not the empty string.\<close>

definition truthy :: "jsstring option \<Rightarrow> bool" where
  "truthy v \<longleftrightarrow> (case v of None \<Rightarrow> False | Some s \<Rightarrow> s \<noteq> [])"

text \<open>The metadata stored with a vector (\<open>VectorMeta\<close>), and the requests to the index.\<close>

record vector_meta =
  vm_type :: jsstring
  vm_sessionId :: "jsstring option"
  vm_sessionTitle :: "jsstring option"
  vm_fact :: "jsstring option"
  vm_category :: "jsstring option"
  vm_date :: "jsstring option"

record index_config =
  idx_url :: jsstring
  idx_token :: jsstring

record query_request =
  q_data :: jsstring
  q_topK :: nat
  q_includeMetadata :: bool
  q_filter :: "jsstring option"

record upsert_request =
  up_id :: jsstring
  up_data :: jsstring
  up_metadata :: vector_meta

text \<open>What the index service answers to a query: the id may be a number or a string.\<close>

datatype raw_id = NumId nat | StrId jsstring

record raw_match =
  raw_id :: raw_id
  raw_score :: real
  raw_metadata :: "vector_meta option"

record VectorSearchResult =
  vr_id :: jsstring
  vr_score :: real
  vr_metadata :: "vector_meta option"

text \<open>A reading of the clock: the ISO instant and the local date as \<open>yyyymmdd\<close>.\<close>

record instant =
  iso :: jsstring
  local_ymd :: jsstring

text \<open>
  The environment of the process: the two configuration variables, the answers of the
  index service (a query may throw), and the clock by the number of the reading.
\<close>

record env =
  UPSTASH_VECTOR_REST_URL :: "jsstring option"
  UPSTASH_VECTOR_REST_TOKEN :: "jsstring option"
  index_query :: "index_config \<Rightarrow> query_request \<Rightarrow> js_error + raw_match list"
  clock :: "nat \<Rightarrow> instant"

datatype role = User | Assistant

fun role_name :: "role \<Rightarrow> jsstring" where
  "role_name User = js ''user''"
| "role_name Assistant = js ''assistant''"

record message =
  role :: role
  content :: jsstring
  timestamp :: jsstring

record session =
  ses_id :: jsstring
  ses_created_at :: jsstring
  ses_updated_at :: jsstring
  ses_title :: jsstring
  ses_tags :: "jsstring list"
  ses_messages :: "message list"

text \<open>A line of a session's \<open>.jsonl\<close> file, before \<open>JSON.stringify\<close>.\<close>

datatype jsonl_line =
    MetaLine jsstring jsstring jsstring jsstring "jsstring list"
  | MessageLine jsstring jsstring jsstring

text \<open>
  The module-level variables of \<open>session.ts\<close> and \<open>vector.ts\<close>, the store, the files
  of the sessions directory by name, the memory mirror file, the upserts sent to the
  index, and the number of clock readings so far.
\<close>

record app =
  db :: store
  currentSessionId :: "jsstring option"
  currentMessages :: "message list"
  sessionFile :: "jsstring option"
  ownedSessionIds :: "jsstring list"
  session_files :: "(jsstring \<times> jsonl_line list) list"
  facts_file :: "jsstring option"
  cached_index :: "index_config option"
  upserts :: "upsert_request list"
  clock_reads :: nat

definition new_Date :: "env \<Rightarrow> app \<Rightarrow> instant \<times> app" where
  "new_Date ev a = (clock ev (clock_reads a), a\<lparr>clock_reads := Suc (clock_reads a)\<rparr>)"

section \<open>Semantic index client (vector.ts)\<close>

definition getIndex :: "env \<Rightarrow> app \<Rightarrow> index_config option \<times> app" where
  "getIndex ev a =
     (case cached_index a of
        Some i \<Rightarrow> (Some i, a)
      | None \<Rightarrow>
          (case (UPSTASH_VECTOR_REST_URL ev, UPSTASH_VECTOR_REST_TOKEN ev) of
             (Some url, Some token) \<Rightarrow>
               if url = [] \<or> token = [] then (None, a)
               else (Some \<lparr>idx_url = url, idx_token = token\<rparr>,
                     a\<lparr>cached_index := Some \<lparr>idx_url = url, idx_token = token\<rparr>\<rparr>)
           | _ \<Rightarrow> (None, a)))"

definition isVectorEnabled :: "env \<Rightarrow> bool" where
  "isVectorEnabled ev \<longleftrightarrow> truthy (UPSTASH_VECTOR_REST_URL ev) \<and> truthy (UPSTASH_VECTOR_REST_TOKEN ev)"

text \<open>
  The upserts are asynchronous and their callers swallow every failure: what the model
  keeps of one is the request sent to the index.
\<close>

definition upsertMemory :: "env \<Rightarrow> app \<Rightarrow> nat \<Rightarrow> jsstring \<Rightarrow> jsstring \<Rightarrow> app" where
  "upsertMemory ev a memoryId f cat =
     (case getIndex ev a of
        (None, a1) \<Rightarrow> a1
      | (Some i, a1) \<Rightarrow>
          a1\<lparr>upserts := upserts a1 @
               [\<lparr>up_id = js ''memory:'' @ decimal memoryId, up_data = f,
                 up_metadata = \<lparr>vm_type = js ''memory'', vm_sessionId = None, vm_sessionTitle = None,
                   vm_fact = Some f, vm_category = Some cat, vm_date = None\<rparr>\<rparr>]\<rparr>)"

definition upsertSessionSummary :: "env \<Rightarrow> app \<Rightarrow> jsstring \<Rightarrow> jsstring \<Rightarrow> jsstring \<Rightarrow> jsstring \<Rightarrow> app" where
  "upsertSessionSummary ev a sessionId ttl summary date =
     (case getIndex ev a of
        (None, a1) \<Rightarrow> a1
      | (Some i, a1) \<Rightarrow>
          a1\<lparr>upserts := upserts a1 @
               [\<lparr>up_id = js ''session:'' @ sessionId, up_data = summary,
                 up_metadata = \<lparr>vm_type = js ''session'', vm_sessionId = Some sessionId,
                   vm_sessionTitle = Some ttl, vm_fact = None, vm_category = None,
                   vm_date = Some date\<rparr>\<rparr>]\<rparr>)"

fun String_of_id :: "raw_id \<Rightarrow> jsstring" where
  "String_of_id (NumId n) = decimal n"
| "String_of_id (StrId s) = s"

definition to_result :: "raw_match \<Rightarrow> VectorSearchResult" where
  "to_result r = \<lparr>vr_id = String_of_id (raw_id r), vr_score = raw_score r, vr_metadata = raw_metadata r\<rparr>"

text \<open>The metadata filter of a query: \<open>typeFilter ? `type = '${typeFilter}'` : undefined\<close>.\<close>

definition filter_expression :: "jsstring option \<Rightarrow> jsstring option" where
  "filter_expression typeFilter =
     (case typeFilter of
        None \<Rightarrow> None
      | Some t \<Rightarrow> if t = [] then None else Some (js ''type = '' @ [39] @ t @ [39]))"

definition queryRelevantContext ::
  "env \<Rightarrow> app \<Rightarrow> jsstring \<Rightarrow> nat \<Rightarrow> jsstring option \<Rightarrow> (js_error + VectorSearchResult list) \<times> app" where
  "queryRelevantContext ev a query topK typeFilter =
     (case getIndex ev a of
        (None, a1) \<Rightarrow> (Inr [], a1)
      | (Some i, a1) \<Rightarrow>
          (case index_query ev i
                  \<lparr>q_data = query, q_topK = topK, q_includeMetadata = True,
                   q_filter = filter_expression typeFilter\<rparr> of
             Inl e \<Rightarrow> (Inl e, a1)
           | Inr results \<Rightarrow> (Inr (map to_result results), a1)))"

definition queryRelevantMemories ::
  "env \<Rightarrow> app \<Rightarrow> jsstring \<Rightarrow> nat \<Rightarrow> (js_error + VectorSearchResult list) \<times> app" where
  "queryRelevantMemories ev a query topK = queryRelevantContext ev a query topK (Some (js ''memory''))"

definition queryRelevantSessions ::
  "env \<Rightarrow> app \<Rightarrow> jsstring \<Rightarrow> nat \<Rightarrow> (js_error + VectorSearchResult list) \<times> app" where
  "queryRelevantSessions ev a query topK = queryRelevantContext ev a query topK (Some (js ''session''))"

section \<open>Sessions (session.ts)\<close>

definition todayPrefix :: "env \<Rightarrow> app \<Rightarrow> jsstring \<times> app" where
  "todayPrefix ev a = (case new_Date ev a of (now, a1) \<Rightarrow> (js ''session_'' @ local_ymd now, a1))"

definition nextSessionId :: "env \<Rightarrow> app \<Rightarrow> jsstring \<times> app" where
  "nextSessionId ev a =
     (case todayPrefix ev a of (pre, a1) \<Rightarrow>
        (let existing = filter (\<lambda>f. startsWith f pre \<and> endsWith f (js ''.jsonl''))
                          (map fst (session_files a1));
             dbSessions = filter (\<lambda>s. startsWith (s_id s) pre) (dbListSessions (db a1) 100);
             maxCount = max (length existing) (length dbSessions)
         in (pre @ js ''_'' @ padStart0 3 (decimal (maxCount + 1)), a1)))"

text \<open>\<open>writeFileSync\<close> replaces a file of the sessions directory, \<open>appendFileSync\<close> adds to it.\<close>

definition write_lines :: "jsstring \<Rightarrow> jsonl_line list \<Rightarrow> (jsstring \<times> jsonl_line list) list
    \<Rightarrow> (jsstring \<times> jsonl_line list) list" where
  "write_lines name ls fs = (name, ls) # filter (\<lambda>f. fst f \<noteq> name) fs"

definition append_lines :: "jsstring \<Rightarrow> jsonl_line list \<Rightarrow> (jsstring \<times> jsonl_line list) list
    \<Rightarrow> (jsstring \<times> jsonl_line list) list" where
  "append_lines name ls fs =
     (case map_of fs name of
        None \<Rightarrow> fs @ [(name, ls)]
      | Some old \<Rightarrow> map (\<lambda>f. if fst f = name then (name, snd f @ ls) else f) fs)"

text \<open>\<open>jsonlLine\<close>: appending to the file of an undefined path throws.\<close>

definition jsonlLine :: "app \<Rightarrow> jsonl_line \<Rightarrow> js_error + app" where
  "jsonlLine a l =
     (case sessionFile a of
        None \<Rightarrow> Inl (TypeError (js ''The path argument must be of type string''))
      | Some f \<Rightarrow> Inr (a\<lparr>session_files := append_lines f [l] (session_files a)\<rparr>))"

text \<open>
  A procedure returns the state it leaves and, when it threw, the error: the writes made
  before the throw stay.
\<close>

definition initSession :: "env \<Rightarrow> app \<Rightarrow> (js_error + session) \<times> app" where
  "initSession ev a =
     (case nextSessionId ev a of (i, a1) \<Rightarrow>
      case new_Date ev a1 of (d, a2) \<Rightarrow>
        (let now = iso d;
             a3 = a2\<lparr>currentSessionId := Some i, currentMessages := [],
                     sessionFile := Some (i @ js ''.jsonl''),
                     ownedSessionIds := ownedSessionIds a2 @ [i]\<rparr>
         in case dbCreateSession (db a3) i (js ''New session'') now of
              Inl e \<Rightarrow> (Inl (DbError e), a3)
            | Inr db1 \<Rightarrow>
                (Inr \<lparr>ses_id = i, ses_created_at = now, ses_updated_at = now,
                       ses_title = js ''New session'', ses_tags = [], ses_messages = []\<rparr>,
                 a3\<lparr>db := db1,
                    session_files := write_lines (i @ js ''.jsonl'')
                      [MetaLine i now now (js ''New session'') []] (session_files a3)\<rparr>)))"

definition appendMessage :: "env \<Rightarrow> app \<Rightarrow> message \<Rightarrow> js_error option \<times> app" where
  "appendMessage ev a msg =
     (case (case currentSessionId a of None \<Rightarrow> None | Some sid \<Rightarrow> dbGetSession (db a) sid) of
        None \<Rightarrow> (None, a)
      | Some session \<Rightarrow>
          (let sid = s_id session;
               wasUntitled = (s_title session = Some (js ''New session''));
               a1 = a\<lparr>currentMessages := currentMessages a @ [msg]\<rparr>
           in case new_Date ev a1 of (d, a2) \<Rightarrow>
              (let now = iso d in
               case dbInsertMessage (db a2) sid (role_name (role msg)) (content msg) (timestamp msg) None of
                 Inl e \<Rightarrow> (Some (DbError e), a2)
               | Inr (row, db1) \<Rightarrow>
                   (case (if wasUntitled \<and> role msg = User then
                            (let ttl = take 60 (content msg);
                                 a3 = a2\<lparr>db := dbUpdateSession db1 sid
                                         (no_update\<lparr>u_title := Some ttl, u_updatedAt := Some now\<rparr>)\<rparr>
                             in (a3, jsonlLine a3 (MetaLine sid (s_created_at session) now ttl [])))
                          else
                            (let a3 = a2\<lparr>db := dbUpdateSession db1 sid
                                         (no_update\<lparr>u_updatedAt := Some now\<rparr>)\<rparr>
                             in (a3, Inr a3))) of
                      (a3, Inl e) \<Rightarrow> (Some e, a3)
                    | (a3, Inr a4) \<Rightarrow>
                        (case jsonlLine a4
                                (MessageLine (role_name (role msg)) (content msg) (timestamp msg)) of
                           Inl e \<Rightarrow> (Some e, a4)
                         | Inr a5 \<Rightarrow> (None, a5))))))"

definition getCurrentSessionId :: "app \<Rightarrow> jsstring option" where
  "getCurrentSessionId a = currentSessionId a"

definition initForTesting :: "app \<Rightarrow> jsstring \<Rightarrow> app" where
  "initForTesting a sessionId = a\<lparr>currentSessionId := Some sessionId, currentMessages := []\<rparr>"

section \<open>Memory lifecycle (memory.ts)\<close>

definition saveFact :: "env \<Rightarrow> app \<Rightarrow> jsstring \<Rightarrow> bool \<times> app" where
  "saveFact ev a f =
     (case dbFindMemoryByFact (db a) f of
        Some existing \<Rightarrow> (False, a)
      | None \<Rightarrow>
          (let sessionId = getCurrentSessionId a in
           case new_Date ev a of (d, a1) \<Rightarrow>
           case dbInsertMemory (db a1) f (js ''general'') sessionId (iso d) of (memoryId, db1) \<Rightarrow>
             (True,
              if isVectorEnabled ev then upsertMemory ev (a1\<lparr>db := db1\<rparr>) memoryId f (js ''general'')
              else a1\<lparr>db := db1\<rparr>)))"

definition syncMemoryMarkdown :: "app \<Rightarrow> app" where
  "syncMemoryMarkdown a =
     a\<lparr>facts_file := Some (join (js ''\<newline>'')
          ([js ''# MEMORY.md - Persistent Memories'', [], js ''## General Facts'', []] @
           map (\<lambda>m. js ''- '' @ fact m) (dbGetActiveMemories (db a)) @ [[]]))\<rparr>"

text \<open>
  The inner loop of the extraction: the bullets that follow a marker line, and how many
  lines it went past. A line that trims to the empty string ends the list and is skipped;
  any other line ends it and is read again by the outer loop.
\<close>

fun collect_bullets :: "jsstring list \<Rightarrow> jsstring list \<times> nat" where
  "collect_bullets [] = ([], 0)"
| "collect_bullets (l # ls) =
     (let next = trim l in
      if startsWith next (js ''- '') then
        (case collect_bullets ls of (bs, k) \<Rightarrow> (trim (drop 2 next) # bs, Suc k))
      else if next = [] then ([], 1)
      else ([], 0))"

text \<open>
  The regular expressions of the inline case. \<open>/^(added|updated) to \w+:\s*/i\<close>: without
  the \<open>u\<close> flag, ignoring case identifies exactly the two cases of an ASCII letter.
\<close>

definition lower_ascii :: "nat \<Rightarrow> nat" where
  "lower_ascii c = (if 65 \<le> c \<and> c \<le> 90 then c + 32 else c)"

definition is_word :: "nat \<Rightarrow> bool" where
  "is_word c \<longleftrightarrow> (48 \<le> c \<and> c \<le> 57) \<or> (65 \<le> c \<and> c \<le> 90) \<or> c = 95 \<or> (97 \<le> c \<and> c \<le> 122)"

definition is_terminal :: "nat \<Rightarrow> bool" where
  "is_terminal c \<longleftrightarrow> c = 46 \<or> c = 33 \<or> c = 63"

definition is_upper :: "nat \<Rightarrow> bool" where
  "is_upper c \<longleftrightarrow> 65 \<le> c \<and> c \<le> 90"

definition match_ci :: "jsstring \<Rightarrow> jsstring \<Rightarrow> jsstring option" where
  "match_ci pat s =
     (if length pat \<le> length s \<and> map lower_ascii (take (length pat) s) = pat
      then Some (drop (length pat) s) else None)"

definition strip_prefix :: "jsstring \<Rightarrow> jsstring" where
  "strip_prefix s =
     (case (case match_ci (js ''added'') s of Some r \<Rightarrow> Some r | None \<Rightarrow> match_ci (js ''updated'') s) of
        None \<Rightarrow> s
      | Some r1 \<Rightarrow>
          (case match_ci (js '' to '') r1 of
             None \<Rightarrow> s
           | Some r2 \<Rightarrow>
               (if takeWhile is_word r2 = [] then s
                else (case dropWhile is_word r2 of
                        [] \<Rightarrow> s
                      | c # r3 \<Rightarrow> if c = 58 then dropWhile is_ws r3 else s))))"

text \<open>\<open>/[.!?]\s+[A-Z]/\<close> at the start of a string, and the position \<open>search\<close> returns.\<close>

definition boundary_here :: "jsstring \<Rightarrow> bool" where
  "boundary_here s =
     (case s of
        [] \<Rightarrow> False
      | c # r \<Rightarrow>
          is_terminal c \<and> takeWhile is_ws r \<noteq> [] \<and>
          (case dropWhile is_ws r of [] \<Rightarrow> False | d # r' \<Rightarrow> is_upper d))"

fun search_boundary :: "jsstring \<Rightarrow> nat option" where
  "search_boundary [] = None"
| "search_boundary (c # cs) =
     (if boundary_here (c # cs) then Some 0 else map_option Suc (search_boundary cs))"

text \<open>\<open>s.replace(/[.!?]+$/, "")\<close>.\<close>

definition strip_trailing :: "jsstring \<Rightarrow> jsstring" where
  "strip_trailing s = rev (dropWhile is_terminal (rev s))"

definition inline_fact :: "jsstring \<Rightarrow> jsstring" where
  "inline_fact inline =
     (let cleaned = strip_prefix inline in
      case search_boundary cleaned of
        Some sentenceEnd \<Rightarrow> take (sentenceEnd + 1) cleaned
      | None \<Rightarrow> trim (strip_trailing cleaned))"

fun save_bullets :: "env \<Rightarrow> jsstring list \<Rightarrow> jsstring list \<times> app \<Rightarrow> jsstring list \<times> app" where
  "save_bullets ev [] acc = acc"
| "save_bullets ev (bullet # bs) (saved, a) =
     (case saveFact ev a bullet of
        (True, a1) \<Rightarrow> save_bullets ev bs (saved @ [bullet], a1)
      | (False, a1) \<Rightarrow> save_bullets ev bs (saved, a1))"

fun extract_loop :: "env \<Rightarrow> jsstring list \<Rightarrow> jsstring list \<times> app \<Rightarrow> jsstring list \<times> app" where
  "extract_loop ev [] acc = acc"
| "extract_loop ev (l # ls) (saved, a) =
     (let trimmedLine = trimStart l in
      case indexOf trimmedLine (js ''[MEMORY]'') of
        None \<Rightarrow> extract_loop ev ls (saved, a)
      | Some memIdx \<Rightarrow>
          (let inline = trim (drop (memIdx + length (js ''[MEMORY]'')) trimmedLine);
               bullets = fst (collect_bullets ls);
               rest = drop (snd (collect_bullets ls)) ls
           in if bullets \<noteq> [] then extract_loop ev rest (save_bullets ev bullets (saved, a))
              else (let f = inline_fact inline in
                    if f \<noteq> [] then
                      (case saveFact ev a f of
                         (True, a1) \<Rightarrow> extract_loop ev rest (saved @ [f], a1)
                       | (False, a1) \<Rightarrow> extract_loop ev rest (saved, a1))
                    else extract_loop ev rest (saved, a))))"

definition extractAndSaveMemories :: "env \<Rightarrow> app \<Rightarrow> jsstring \<Rightarrow> jsstring list \<times> app" where
  "extractAndSaveMemories ev a responseText =
     (case extract_loop ev (split_on 10 responseText) ([], a) of
        (saved, a1) \<Rightarrow> (saved, if saved \<noteq> [] then syncMemoryMarkdown a1 else a1))"

definition getActiveMemories :: "app \<Rightarrow> memory_row list" where
  "getActiveMemories a = dbGetActiveMemories (db a)"

text \<open>The facts the extraction hands to \<open>saveFact\<close>, in order.\<close>

fun candidates :: "jsstring list \<Rightarrow> jsstring list" where
  "candidates [] = []"
| "candidates (l # ls) =
     (case indexOf (trimStart l) (js ''[MEMORY]'') of
        None \<Rightarrow> candidates ls
      | Some memIdx \<Rightarrow>
          (if fst (collect_bullets ls) \<noteq> [] then fst (collect_bullets ls)
           else if inline_fact (trim (drop (memIdx + length (js ''[MEMORY]'')) (trimStart l))) \<noteq> []
           then [inline_fact (trim (drop (memIdx + length (js ''[MEMORY]'')) (trimStart l)))]
           else [])
          @ candidates (drop (snd (collect_bullets ls)) ls))"

definition known :: "app \<Rightarrow> jsstring \<Rightarrow> bool" where
  "known a f \<longleftrightarrow> dbFindMemoryByFact (db a) f \<noteq> None"

text \<open>The row \<open>saveFact\<close> inserts for a fact that is not yet an active memory.\<close>

definition new_row :: "env \<Rightarrow> app \<Rightarrow> jsstring \<Rightarrow> memory_row" where
  "new_row ev a f =
     \<lparr>mem_id = next_memory_id (db a), fact = f, category = js ''general'',
      source_session = currentSessionId a, mem_created_at = iso (clock ev (clock_reads a)),
      superseded_by = None\<rparr>"

text \<open>
  The words of the specification for the inline case. A prefix of the form
  "added/updated to <word>:" (case-insensitive), and a sentence boundary at a position:
  terminal punctuation there, followed by white space and a capital letter.
\<close>

definition prefix_form :: "jsstring \<Rightarrow> bool" where
  "prefix_form p \<longleftrightarrow>
     (\<exists>h w. p = h @ w @ js '':'' \<and>
        (map lower_ascii h = js ''added to '' \<or> map lower_ascii h = js ''updated to '') \<and>
        w \<noteq> [] \<and> list_all is_word w)"

definition sentence_boundary :: "jsstring \<Rightarrow> nat \<Rightarrow> bool" where
  "sentence_boundary s e \<longleftrightarrow>
     (\<exists>c ws d rest. drop e s = c # ws @ d # rest \<and>
        is_terminal c \<and> ws \<noteq> [] \<and> list_all is_ws ws \<and> is_upper d)"

text \<open>The title the store holds for the current session.\<close>

definition stored_title :: "app \<Rightarrow> jsstring option" where
  "stored_title a =
     (case currentSessionId a of
        None \<Rightarrow> None
      | Some sid \<Rightarrow> (case dbGetSession (db a) sid of None \<Rightarrow> None | Some r \<Rightarrow> s_title r))"

text \<open>Appending a run of messages; a message whose append throws still leaves its writes.\<close>

definition append_all :: "env \<Rightarrow> app \<Rightarrow> message list \<Rightarrow> app" where
  "append_all ev a ms = foldl (\<lambda>a m. snd (appendMessage ev a m)) a ms"

section \<open>Context assembly (context.ts)\<close>

text \<open>
  What the assembler reads from the workspace directory: the content of
  \<open>context/SYSTEM.md\<close> and of \<open>context/USER.md\<close> when the file exists, whether the
  \<open>context\<close> directory exists, and the installed skills as \<open>getInstalledSkills\<close> returns
  them.
\<close>

record SkillInfo =
  sk_name :: jsstring
  sk_description :: jsstring
  sk_content :: jsstring

record workspace =
  SYSTEM_md :: "jsstring option"
  context_dir :: bool
  USER_md :: "jsstring option"
  installed_skills :: "SkillInfo list"

definition readFile :: "jsstring option \<Rightarrow> jsstring" where
  "readFile f = (case f of None \<Rightarrow> [] | Some c \<Rightarrow> trim c)"

definition loadSkillsCatalog :: "workspace \<Rightarrow> jsstring" where
  "loadSkillsCatalog ws =
     (let skills = installed_skills ws in
      if length skills = 0 then []
      else join (js ''\<newline>'')
             ([js ''# Available Skills'', [],
               js ''Use the `read_skill` tool to load a skill's full instructions when it is relevant to the user's request.'',
               []] @
              map (\<lambda>skill. js ''- **'' @ sk_name skill @ js ''**: '' @ sk_description skill) skills))"

text \<open>
  A stored role is a string; the cast of the source keeps it, and the only reader,
  \<open>summarizeSession\<close>, asks whether it is \<open>user\<close>.
\<close>

definition role_of :: "jsstring \<Rightarrow> role" where
  "role_of r = (if r = js ''user'' then User else Assistant)"

definition getRecentSessions :: "store \<Rightarrow> nat \<Rightarrow> session list" where
  "getRecentSessions st n =
     map (\<lambda>row.
            \<lparr>ses_id = s_id row, ses_created_at = s_created_at row, ses_updated_at = s_updated_at row,
             ses_title = (case s_title row of None \<Rightarrow> js ''Untitled'' | Some t \<Rightarrow> t),
             ses_tags = s_tags row,
             ses_messages =
               map (\<lambda>m. \<lparr>role = role_of (m_role m), content = m_content m, timestamp = m_timestamp m\<rparr>)
                 (dbGetMessages st (s_id row))\<rparr>)
       (dbListSessions st n)"

text \<open>The ellipsis is the one code unit U+2026.\<close>

definition summarizeSession :: "session \<Rightarrow> jsstring" where
  "summarizeSession s =
     join (js ''\<newline>'')
       ((js ''## Past session: '' @ [34] @ ses_title s @ [34]) #
        map (\<lambda>msg.
               (if role msg = User then js ''User'' else js ''Assistant'') @ js '': '' @
               take 200 (content msg) @ (if length (content msg) > 200 then [8230] else []))
          (ses_messages s))"

definition divider :: jsstring where
  "divider = js ''\<newline>\<newline>---\<newline>\<newline>''"

text \<open>The three leading sections, pushed in order onto the parts so far.\<close>

definition push_leading :: "workspace \<Rightarrow> jsstring list \<Rightarrow> jsstring list" where
  "push_leading ws parts0 =
     (let systemPrompt = readFile (SYSTEM_md ws);
          parts1 = (if systemPrompt \<noteq> [] then parts0 @ [systemPrompt] else parts0);
          parts2 = (if context_dir ws then
                      (let userMd = readFile (USER_md ws) in
                       if userMd \<noteq> [] then parts1 @ [userMd] else parts1)
                    else parts1);
          skillsCatalog = loadSkillsCatalog ws
      in if skillsCatalog \<noteq> [] then parts2 @ [skillsCatalog] else parts2)"

text \<open>The active memories section and the recent sessions, as both prompts push them.\<close>

definition push_active_memories :: "store \<Rightarrow> jsstring list \<Rightarrow> jsstring list" where
  "push_active_memories st parts0 =
     (let activeMemories = dbGetActiveMemories st in
      if length activeMemories > 0 then
        parts0 @ [join (js ''\<newline>'')
                    ([js ''# Active Memories'', []] @ map (\<lambda>mem. js ''- '' @ fact mem) activeMemories)]
      else parts0)"

definition push_recent_sessions :: "store \<Rightarrow> nat \<Rightarrow> jsstring list \<Rightarrow> jsstring list" where
  "push_recent_sessions st n parts0 = parts0 @ map summarizeSession (getRecentSessions st n)"

definition buildSystemPrompt :: "workspace \<Rightarrow> store \<Rightarrow> nat \<Rightarrow> jsstring" where
  "buildSystemPrompt ws st nRecentSessions =
     join divider (push_recent_sessions st nRecentSessions (push_active_memories st (push_leading ws [])))"

text \<open>
  The bodies of the two \<open>try\<close> blocks after their query has answered. Reading a field of
  an undefined metadata throws; the parts are pushed last, so a throw leaves them as they
  were.
\<close>

fun memory_lines :: "VectorSearchResult list \<Rightarrow> js_error + jsstring list" where
  "memory_lines [] = Inr []"
| "memory_lines (r # rs) =
     (case vr_metadata r of
        None \<Rightarrow> Inl (TypeError (js ''Cannot read properties of undefined''))
      | Some md \<Rightarrow>
          (case memory_lines rs of
             Inl e \<Rightarrow> Inl e
           | Inr ls \<Rightarrow>
               (case vm_fact md of
                  None \<Rightarrow> Inr ls
                | Some f \<Rightarrow> Inr (if f \<noteq> [] then (js ''- '' @ f) # ls else ls))))"

definition try_memories :: "VectorSearchResult list \<Rightarrow> jsstring list \<Rightarrow> js_error + jsstring list" where
  "try_memories relevantMemories parts0 =
     (if length relevantMemories > 0 then
        (case memory_lines relevantMemories of
           Inl e \<Rightarrow> Inl e
         | Inr ls \<Rightarrow> Inr (parts0 @ [join (js ''\<newline>'') ([js ''# Relevant Memories'', []] @ ls)]))
      else Inr parts0)"

definition excerpt_line :: "message_row \<Rightarrow> jsstring" where
  "excerpt_line m =
     js ''  '' @ (if m_role m = js ''user'' then js ''User'' else js ''Assistant'') @ js '': '' @
     take 150 (m_content m) @ (if length (m_content m) > 150 then [8230] else [])"

fun session_lines :: "store \<Rightarrow> VectorSearchResult list \<Rightarrow> js_error + jsstring list" where
  "session_lines st [] = Inr []"
| "session_lines st (r # rs) =
     (case vr_metadata r of
        None \<Rightarrow> Inl (TypeError (js ''Cannot read properties of undefined''))
      | Some md \<Rightarrow>
          (case session_lines st rs of
             Inl e \<Rightarrow> Inl e
           | Inr ls \<Rightarrow>
               (case vm_sessionId md of
                  None \<Rightarrow> Inr ls
                | Some sessionId \<Rightarrow>
                    (if sessionId = [] then Inr ls
                     else (case dbGetSession st sessionId of
                             None \<Rightarrow> Inr ls
                           | Some session \<Rightarrow>
                               Inr ((js ''## '' @ [34] @
                                       (case s_title session of None \<Rightarrow> js ''null'' | Some t \<Rightarrow> t) @
                                       [34] @ js '' ('' @
                                       (case vm_date md of None \<Rightarrow> [] | Some d \<Rightarrow> d) @ js '')'') #
                                    map excerpt_line (take 6 (dbGetMessages st sessionId)) @
                                    [[]] @ ls))))))"

definition try_sessions ::
  "store \<Rightarrow> VectorSearchResult list \<Rightarrow> jsstring list \<Rightarrow> js_error + jsstring list" where
  "try_sessions st relevantSessions parts0 =
     (if length relevantSessions > 0 then
        (case session_lines st relevantSessions of
           Inl e \<Rightarrow> Inl e
         | Inr ls \<Rightarrow>
             Inr (parts0 @ [join (js ''\<newline>'') ([js ''# Relevant Past Conversations'', []] @ ls)]))
      else Inr parts0)"

text \<open>
  \<open>buildAugmentedPrompt\<close>: the promise it returns is fulfilled with a prompt or rejected
  with an error.
\<close>

definition buildAugmentedPrompt ::
  "env \<Rightarrow> workspace \<Rightarrow> app \<Rightarrow> jsstring \<Rightarrow> nat \<Rightarrow> (js_error + jsstring) \<times> app" where
  "buildAugmentedPrompt ev ws a userMessage nFallbackSessions =
     (if \<not> isVectorEnabled ev then (Inr (buildSystemPrompt ws (db a) nFallbackSessions), a)
      else
        (let parts1 = push_leading ws [] in
         case queryRelevantMemories ev a userMessage 10 of (memories_answer, a1) \<Rightarrow>
         (let parts2 =
                (case (case memories_answer of
                         Inl e \<Rightarrow> Inl e
                       | Inr relevantMemories \<Rightarrow> try_memories relevantMemories parts1) of
                   Inr ps \<Rightarrow> ps
                 | Inl e \<Rightarrow> push_active_memories (db a1) parts1)
          in case queryRelevantSessions ev a1 userMessage 5 of (sessions_answer, a2) \<Rightarrow>
          (let parts3 =
                 (case (case sessions_answer of
                          Inl e \<Rightarrow> Inl e
                        | Inr relevantSessions \<Rightarrow> try_sessions (db a2) relevantSessions parts2) of
                    Inr ps \<Rightarrow> ps
                  | Inl e \<Rightarrow> push_recent_sessions (db a2) nFallbackSessions parts2)
           in (Inr (join divider parts3), a2)))))"

text \<open>
  The memory section and the history section of the augmented prompt, each as a function
  of the outcome of its own query alone.
\<close>

definition memory_section :: "env \<Rightarrow> app \<Rightarrow> jsstring \<Rightarrow> jsstring list" where
  "memory_section ev a userMessage =
     (case fst (queryRelevantMemories ev a userMessage 10) of
        Inl e \<Rightarrow> push_active_memories (db a) []
      | Inr relevantMemories \<Rightarrow>
          (case try_memories relevantMemories [] of
             Inl e \<Rightarrow> push_active_memories (db a) []
           | Inr ps \<Rightarrow> ps))"

definition history_section :: "env \<Rightarrow> app \<Rightarrow> jsstring \<Rightarrow> nat \<Rightarrow> jsstring list" where
  "history_section ev a userMessage n =
     (case fst (queryRelevantSessions ev a userMessage 5) of
        Inl e \<Rightarrow> push_recent_sessions (db a) n []
      | Inr relevantSessions \<Rightarrow>
          (case try_sessions (db a) relevantSessions [] of
             Inl e \<Rightarrow> push_recent_sessions (db a) n []
           | Inr ps \<Rightarrow> ps))"

section \<open>Tools (tools.ts)\<close>

text \<open>
  \<open>path.resolve\<close> of Node on POSIX paths: the arguments are read from the right until one
  is absolute, the working directory standing in front of them all; the result is \<open>/\<close>
  followed by the normalised segments, where empty segments and \<open>.\<close> are dropped and
  \<open>..\<close> removes the segment before it (at the root, nothing).
\<close>

fun normalize_segments :: "jsstring list \<Rightarrow> jsstring list \<Rightarrow> jsstring list" where
  "normalize_segments acc [] = acc"
| "normalize_segments acc (s # ss) =
     (if s = [] \<or> s = js ''.'' then normalize_segments acc ss
      else if s = js ''..'' then normalize_segments (butlast acc) ss
      else normalize_segments (acc @ [s]) ss)"

fun resolve_from_right :: "jsstring list \<Rightarrow> jsstring \<Rightarrow> jsstring" where
  "resolve_from_right [] acc = acc"
| "resolve_from_right (p # ps) acc =
     (case p of
        [] \<Rightarrow> resolve_from_right ps acc
      | c # cs \<Rightarrow> if c = 47 then p @ [47] @ acc else resolve_from_right ps (p @ [47] @ acc))"

definition path_resolve :: "jsstring \<Rightarrow> jsstring list \<Rightarrow> jsstring" where
  "path_resolve cwd paths =
     [47] @ join [47] (normalize_segments [] (split_on 47 (resolve_from_right (rev paths @ [cwd]) [])))"

text \<open>
  Where the module stands: the working directory of the process and \<open>import.meta.dir\<close>.
  \<open>BIN_DIR\<close> is \<open>resolve(join(import.meta.dir, "../../workspace/bin"))\<close>; joining and then
  resolving is resolving the two arguments.
\<close>

record module_env =
  process_cwd :: jsstring
  import_meta_dir :: jsstring

definition BIN_DIR :: "module_env \<Rightarrow> jsstring" where
  "BIN_DIR me = path_resolve (process_cwd me) [import_meta_dir me, js ''../../workspace/bin'']"








definition getBinDir :: "module_env \<Rightarrow> jsstring" where
  "getBinDir me = BIN_DIR me"















section \<open>Agent loop (anthropic.ts)\<close>
























section \<open>Scenarios\<close>

definition coffee_ops :: "store_op list" where
  "coffee_ops =
     [InsertMemory (js ''User likes coffee'') (js ''general'') None (js ''2025-01-01T00:00:00Z''),
      InsertMemory (js ''User likes tea'') (js ''general'') None (js ''2025-01-01T00:00:01Z'')]"

definition coffee_again :: store_op where
  "coffee_again = InsertMemory (js ''User likes coffee'') (js ''general'') None (js ''2025-01-02T00:00:00Z'')"

definition coffee_st1 :: store where
  "coffee_st1 = projr (dbSupersedeMemory (run_ops empty_store coffee_ops) 1 2)"

definition plain_env :: env where
  "plain_env =
     \<lparr>UPSTASH_VECTOR_REST_URL = None, UPSTASH_VECTOR_REST_TOKEN = None,
      index_query = (\<lambda>i q. Inr []),
      clock = (\<lambda>n. \<lparr>iso = js ''2025-01-01T00:00:00.000Z'', local_ymd = js ''20250101''\<rparr>)\<rparr>"

definition empty_app :: app where
  "empty_app =
     \<lparr>db = empty_store, currentSessionId = None, currentMessages = [], sessionFile = None,
      ownedSessionIds = [], session_files = [], facts_file = None, cached_index = None,
      upserts = [], clock_reads = 0\<rparr>"

definition coffee_text :: jsstring where
  "coffee_text = js ''[MEMORY] User likes coffee''"

definition pixel_text :: jsstring where
  "pixel_text = js ''[MEMORY] Added to memories: User has a cat named Pixel''"

definition tea_text :: jsstring where
  "tea_text = js ''[MEMORY] ?!\<newline>[MEMORY] Updated facts:\<newline>- Likes tea\<newline>-''"

definition hiking :: jsstring where
  "hiking = js ''User enjoys hiking. They also mentioned they live in Colorado.''"

definition blue :: jsstring where
  "blue = js ''User's favorite color is blue.''"

definition first_msg :: message where
  "first_msg = \<lparr>role = User, content = js ''New session'', timestamp = js ''2025-01-01T00:00:01Z''\<rparr>"

definition second_msg :: message where
  "second_msg = \<lparr>role = User, content = js ''Hello'', timestamp = js ''2025-01-01T00:00:02Z''\<rparr>"

definition memory_filter :: jsstring where
  "memory_filter = js ''type = '' @ [39] @ js ''memory'' @ [39]"

definition coffee_match :: raw_match where
  "coffee_match =
     \<lparr>raw_id = StrId (js ''session:s1''), raw_score = 0.9,
      raw_metadata = Some \<lparr>vm_type = js ''session'', vm_sessionId = Some (js ''s1''),
        vm_sessionTitle = Some (js ''Coffee Chat''), vm_fact = None, vm_category = None,
        vm_date = Some (js ''2025-01-01'')\<rparr>\<rparr>"

definition memory_down_env :: env where
  "memory_down_env =
     \<lparr>UPSTASH_VECTOR_REST_URL = Some (js ''https://vector.example''),
      UPSTASH_VECTOR_REST_TOKEN = Some (js ''token''),
      index_query = (\<lambda>i q. if q_filter q = Some memory_filter
                               then Inl (ServiceError (js ''fetch failed''))
                               else Inr [coffee_match]),
      clock = (\<lambda>n. \<lparr>iso = js ''2025-01-02T00:00:00.000Z'', local_ymd = js ''20250102''\<rparr>)\<rparr>"

definition session_down_env :: env where
  "session_down_env =
     memory_down_env\<lparr>index_query := (\<lambda>i q. if q_filter q = Some memory_filter
                               then Inr [] else Inl (ServiceError (js ''fetch failed'')))\<rparr>"

definition sample_app :: app where
  "sample_app =
     empty_app\<lparr>db := run_ops empty_store
       [CreateSession (js ''s1'') (js ''Coffee Chat'') (js ''2025-01-01T00:00:00Z''),
        InsertMessage (js ''s1'') (js ''user'') (js ''I love coffee'') (js ''2025-01-01T00:00:01Z'') None,
        InsertMemory (js ''User likes coffee'') (js ''general'') (Some (js ''s1''))
          (js ''2025-01-01T00:00:02Z'')]\<rparr>"

definition sample_ws :: workspace where
  "sample_ws =
     \<lparr>SYSTEM_md = Some (js ''You are Retain.\<newline>''), context_dir = True, USER_md = None,
      installed_skills = []\<rparr>"








section \<open>Supersession\<close>

lemma store_ok_empty: "store_ok empty_store"
  by (simp add: store_ok_def empty_store_def)

lemma memories_apply_op_cases:
  "memories (apply_op st op) = memories st \<and> next_memory_id (apply_op st op) = next_memory_id st
   \<or> (\<exists>f cat src c. op = InsertMemory f cat src c)
   \<or> (\<exists>a b. op = SupersedeMemory a b)"
  by (cases op)
     (auto simp: dbCreateSession_def dbUpdateSession_def dbDeleteSession_def dbInsertMessage_def
           split: sum.splits if_splits)

lemma store_ok_apply_op: "store_ok st \<Longrightarrow> store_ok (apply_op st op)"
  by (cases op)
     (auto simp: store_ok_def list_all_iff dbCreateSession_def dbUpdateSession_def dbDeleteSession_def dbInsertMessage_def
        dbInsertMemory_def dbSupersedeMemory_def
           split: sum.splits if_splits)

lemma store_ok_run_ops: "store_ok st \<Longrightarrow> store_ok (run_ops st ops)"
  unfolding run_ops_def
  by (induction ops arbitrary: st) (simp_all add: store_ok_apply_op)

lemma hidden_apply_op: "store_ok st \<Longrightarrow> hidden i st \<Longrightarrow> hidden i (apply_op st op)"
  by (cases op)
     (auto simp: store_ok_def hidden_def list_all_iff active_def dbCreateSession_def dbUpdateSession_def dbDeleteSession_def dbInsertMessage_def
        dbInsertMemory_def dbSupersedeMemory_def
           split: sum.splits if_splits)

lemma hidden_run_ops: "store_ok st \<Longrightarrow> hidden i st \<Longrightarrow> hidden i (run_ops st ops)"
  unfolding run_ops_def
  by (induction ops arbitrary: st) (simp_all add: store_ok_apply_op hidden_apply_op)

lemma visible_apply_op: "visible i f st \<Longrightarrow> \<not> supersedes i op \<Longrightarrow> visible i f (apply_op st op)"
  by (cases op)
     (auto simp: visible_def list_ex_iff active_def dbCreateSession_def dbUpdateSession_def dbDeleteSession_def dbInsertMessage_def
        dbInsertMemory_def dbSupersedeMemory_def
           split: sum.splits if_splits)

lemma visible_run_ops: "visible i f st \<Longrightarrow> \<forall>op\<in>set ops. \<not> supersedes i op \<Longrightarrow> visible i f (run_ops st ops)"
  unfolding run_ops_def
  by (induction ops arbitrary: st) (simp_all add: visible_apply_op)

lemma supersede_hides:
  "store_ok st \<Longrightarrow> dbSupersedeMemory st a b = Inr st1 \<Longrightarrow> store_ok st1 \<and> hidden a st1"
  by (auto simp: store_ok_def hidden_def list_all_iff list_ex_iff has_memory_def active_def dbSupersedeMemory_def split: if_splits)

lemma supersede_keeps:
  "a \<noteq> b \<Longrightarrow> visible b f st \<Longrightarrow> dbSupersedeMemory st a b = Inr st1 \<Longrightarrow> visible b f st1"
  by (auto simp: visible_def list_all_iff list_ex_iff has_memory_def active_def dbSupersedeMemory_def split: if_splits)

lemma hidden_active: "hidden i st \<Longrightarrow> m \<in> set (dbGetActiveMemories st) \<Longrightarrow> mem_id m \<noteq> i"
  by (auto simp: hidden_def dbGetActiveMemories_def list_all_iff)

lemma hidden_find: "hidden i st \<Longrightarrow> dbFindMemoryByFact st t = Some m \<Longrightarrow> mem_id m \<noteq> i"
  by (auto simp: hidden_def dbFindMemoryByFact_def list_all_iff find_Some_iff)

lemma hidden_hits: "hidden i st \<Longrightarrow> MemoryHit m \<in> set (searchHits mt rk st q limit) \<Longrightarrow> mem_id m \<noteq> i"
  by (auto simp: hidden_def searchHits_def ranked_def message_hits_def memory_hits_def list_all_iff dest!: in_set_takeD)

lemma hidden_memory_hits: "hidden i st \<Longrightarrow> MemoryHit m \<in> set (searchMemoryHits mt rk st q limit) \<Longrightarrow> mem_id m \<noteq> i"
  by (auto simp: hidden_def searchMemoryHits_def ranked_def message_hits_def memory_hits_def list_all_iff dest!: in_set_takeD)

lemma visible_active: "visible i f st \<Longrightarrow> \<exists>m\<in>set (dbGetActiveMemories st). mem_id m = i \<and> fact m = f"
  by (auto simp: visible_def dbGetActiveMemories_def list_ex_iff)

lemma visible_find: "visible i f st \<Longrightarrow> dbFindMemoryByFact st f \<noteq> None"
  by (auto simp: visible_def dbFindMemoryByFact_def list_ex_iff find_None_iff)

lemma find_None_active: "dbFindMemoryByFact st t = None \<longleftrightarrow> (\<forall>m\<in>set (dbGetActiveMemories st). fact m \<noteq> t)"
  by (auto simp: dbFindMemoryByFact_def dbGetActiveMemories_def find_None_iff)

lemma visible_iff: "visible i f st \<longleftrightarrow> (\<exists>m\<in>set (dbGetActiveMemories st). mem_id m = i \<and> fact m = f)"
  by (auto simp: visible_def dbGetActiveMemories_def list_ex_iff)

text \<open>
  Claim C1, as amended. Let the store be reached from the empty store by any run of
  operations, let \<open>new\<close> be an active memory with fact \<open>f\<close>, and let
  \<open>dbSupersedeMemory old new\<close> succeed with \<open>old \<noteq> new\<close>. After every further run
  of operations none of which supersedes \<open>new\<close>: no row with the id \<open>old\<close> is among the
  active memories, among the hits of the memory search or of the merged search (whatever
  the index's matching and ranking), or is what \<open>dbFindMemoryByFact\<close> returns for any
  text; \<open>dbFindMemoryByFact\<close> returns none for a text exactly when no active memory
  carries it; and \<open>new\<close> is still active and found by its fact.
\<close>

theorem supersede_invariant:
  assumes reach: "st = run_ops empty_store ops0"
    and sup: "dbSupersedeMemory st old new = Inr st1"
    and neq: "old \<noteq> new"
    and act: "\<exists>m\<in>set (dbGetActiveMemories st). mem_id m = new \<and> fact m = f"
    and ops: "\<forall>op\<in>set ops. \<not> supersedes new op"
  shows "(\<forall>m\<in>set (dbGetActiveMemories (run_ops st1 ops)). mem_id m \<noteq> old) \<and>
         (\<forall>mt rk q limit m. MemoryHit m \<in> set (searchMemoryHits mt rk (run_ops st1 ops) q limit) \<longrightarrow> mem_id m \<noteq> old) \<and>
         (\<forall>mt rk q limit m. MemoryHit m \<in> set (searchHits mt rk (run_ops st1 ops) q limit) \<longrightarrow> mem_id m \<noteq> old) \<and>
         (\<forall>t m. dbFindMemoryByFact (run_ops st1 ops) t = Some m \<longrightarrow> mem_id m \<noteq> old) \<and>
         (\<forall>t. dbFindMemoryByFact (run_ops st1 ops) t = None \<longleftrightarrow>
                (\<forall>m\<in>set (dbGetActiveMemories (run_ops st1 ops)). fact m \<noteq> t)) \<and>
         (\<exists>m\<in>set (dbGetActiveMemories (run_ops st1 ops)). mem_id m = new \<and> fact m = f) \<and>
         dbFindMemoryByFact (run_ops st1 ops) f \<noteq> None"
proof -
  have ok: "store_ok st"
    using reach by (simp add: store_ok_run_ops store_ok_empty)
  have h1: "store_ok st1" and h2: "hidden old st1"
    using supersede_hides [OF ok sup] by simp_all
  have hid: "hidden old (run_ops st1 ops)"
    by (rule hidden_run_ops [OF h1 h2])
  have "visible new f st1"
    using supersede_keeps [OF neq _ sup] act by (simp add: visible_iff)
  then have vis: "visible new f (run_ops st1 ops)"
    using ops by (rule visible_run_ops)
  show ?thesis
    using hid vis
    by (auto simp: find_None_active dest: hidden_active hidden_find hidden_hits hidden_memory_hits
        visible_active visible_find)
qed

text \<open>
  The claim as stated also promises that \<open>dbFindMemoryByFact\<close> of the old fact returns
  none after every later operation. Storing the old fact again (which the extraction path
  does, since its duplicate check sees active memories only) is such an operation, and the
  lookup then finds the new row.
\<close>

theorem supersede_find_old_fact_counterexample:
  "(case dbSupersedeMemory (run_ops empty_store coffee_ops) 1 2 of
      Inl e \<Rightarrow> False
    | Inr st1 \<Rightarrow>
        \<not> supersedes 2 coffee_again \<and>
        dbFindMemoryByFact (run_ops st1 [coffee_again]) (js ''User likes coffee'') \<noteq> None)"
  by code_simp

theorem supersede_invariant_witness:
  "dbSupersedeMemory (run_ops empty_store coffee_ops) 1 2 = Inr coffee_st1 \<and>
   list_ex (\<lambda>m. mem_id m = 2 \<and> fact m = js ''User likes tea'')
     (dbGetActiveMemories (run_ops empty_store coffee_ops)) \<and>
   list_all (\<lambda>op. \<not> supersedes 2 op) [coffee_again] \<and>
   list_all (\<lambda>m. mem_id m \<noteq> 1) (dbGetActiveMemories (run_ops coffee_st1 [coffee_again])) \<and>
   list_ex (\<lambda>m. mem_id m = 2 \<and> fact m = js ''User likes tea'')
     (dbGetActiveMemories (run_ops coffee_st1 [coffee_again])) \<and>
   dbFindMemoryByFact (run_ops coffee_st1 [coffee_again]) (js ''User likes tea'') \<noteq> None"
proof -
  have sup: "dbSupersedeMemory (run_ops empty_store coffee_ops) 1 2 = Inr coffee_st1"
    by code_simp
  have act: "list_ex (\<lambda>m. mem_id m = 2 \<and> fact m = js ''User likes tea'')
     (dbGetActiveMemories (run_ops empty_store coffee_ops))"
    by code_simp
  have ops: "list_all (\<lambda>op. \<not> supersedes 2 op) [coffee_again]"
    by code_simp
  have neq: "(1::nat) \<noteq> 2"
    by simp
  note th = supersede_invariant [OF refl sup neq act [unfolded list_ex_iff] ops [unfolded list_all_iff]]
  have hid: "\<forall>m\<in>set (dbGetActiveMemories (run_ops coffee_st1 [coffee_again])). mem_id m \<noteq> 1"
    using th by (elim conjE)
  have vis: "\<exists>m\<in>set (dbGetActiveMemories (run_ops coffee_st1 [coffee_again])).
      mem_id m = 2 \<and> fact m = js ''User likes tea''"
    using th by (elim conjE)
  have fnd: "dbFindMemoryByFact (run_ops coffee_st1 [coffee_again]) (js ''User likes tea'') \<noteq> None"
    using th by (elim conjE)
  show ?thesis
    using sup act ops hid [folded list_all_iff] vis [folded list_ex_iff] fnd
    by (intro conjI)

qed

section \<open>Memory extraction\<close>

lemma save_bullets_append:
  "save_bullets ev (xs @ ys) acc = save_bullets ev ys (save_bullets ev xs acc)"
proof (induction xs arbitrary: acc)
  case Nil
  show ?case by simp
next
  case (Cons x xs)
  obtain saved a where acc: "acc = (saved, a)" by (cases acc)
  show ?case
    by (cases "saveFact ev a x") (auto simp: acc Cons.IH split: bool.splits)
qed

lemma extract_loop_candidates:
  "extract_loop ev ls acc = save_bullets ev (candidates ls) acc"
proof (induction ls arbitrary: acc rule: candidates.induct)
  case 1
  show ?case by simp
next
  case (2 l ls)
  obtain saved a where acc: "acc = (saved, a)" by (cases acc)
  show ?case
  proof (cases "indexOf (trimStart l) (js ''[MEMORY]'')")
    case None
    then show ?thesis using "2.IH"(1) by (simp add: acc)
  next
    case (Some memIdx)
    note ih = "2.IH"(2) [OF Some]
    show ?thesis
      by (cases "saveFact ev a (inline_fact (trim (drop (memIdx + length (js ''[MEMORY]'')) (trimStart l))))")
         (auto simp: acc Some ih save_bullets_append Let_def split: bool.splits)
  qed
qed

subsection \<open>Trimming\<close>

lemma trimStart_Nil_iff: "trimStart s = [] \<longleftrightarrow> (\<forall>c\<in>set s. is_ws c)"
  by (simp add: trimStart_def dropWhile_eq_Nil_conv)

lemma trimEnd_Nil_iff: "trimEnd s = [] \<longleftrightarrow> (\<forall>c\<in>set s. is_ws c)"
  by (simp add: trimEnd_def dropWhile_eq_Nil_conv)

lemma set_trimStart: "set (trimStart s) \<subseteq> set s"
  by (simp add: trimStart_def set_dropWhileD subsetI)

lemma trim_Nil_iff: "trim s = [] \<longleftrightarrow> (\<forall>c\<in>set s. is_ws c)"
proof
  assume "trim s = []"
  then have all: "\<forall>c\<in>set (dropWhile is_ws s). is_ws c"
    by (simp add: trim_def trimEnd_Nil_iff trimStart_def)
  show "\<forall>c\<in>set s. is_ws c"
  proof (cases "dropWhile is_ws s")
    case Nil
    then show ?thesis by (simp add: dropWhile_eq_Nil_conv)
  next
    case (Cons c cs)
    then have "\<not> is_ws c" using hd_dropWhile [of is_ws s] by simp
    moreover have "is_ws c" using all Cons by simp
    ultimately show ?thesis by simp
  qed
next
  assume "\<forall>c\<in>set s. is_ws c"
  then have "\<forall>c\<in>set (dropWhile is_ws s). is_ws c"
    by (auto dest: set_dropWhileD)
  then show "trim s = []"
    by (simp add: trim_def trimEnd_def trimStart_def dropWhile_eq_Nil_conv)
qed

lemma trimEnd_prefix: "\<exists>t. s = trimEnd s @ t \<and> (\<forall>c\<in>set t. is_ws c)"
proof -
  have "rev s = takeWhile is_ws (rev s) @ dropWhile is_ws (rev s)" by simp
  then have "s = rev (dropWhile is_ws (rev s)) @ rev (takeWhile is_ws (rev s))"
    by (metis rev_append rev_rev_ident)
  moreover have "\<forall>c\<in>set (rev (takeWhile is_ws (rev s))). is_ws c"
    by (auto dest: set_takeWhileD)
  ultimately show ?thesis unfolding trimEnd_def by blast
qed

lemma trimEnd_last: "trimEnd s \<noteq> [] \<Longrightarrow> \<not> is_ws (last (trimEnd s))"
  unfolding trimEnd_def
  using hd_dropWhile [of is_ws "rev s"] by (simp add: last_rev)

lemma trim_ends:
  assumes "trim s \<noteq> []"
  shows "\<not> is_ws (hd (trim s))" and "\<not> is_ws (last (trim s))"
proof -
  let ?t = "trimStart s"
  have ne: "?t \<noteq> []" using assms by (auto simp: trim_def trimEnd_def)
  then have hd: "\<not> is_ws (hd ?t)"
    unfolding trimStart_def by (rule hd_dropWhile)
  obtain u where u: "?t = trimEnd ?t @ u" using trimEnd_prefix by blast
  have "trimEnd ?t \<noteq> []" using assms by (simp add: trim_def)
  then have "hd (trimEnd ?t) = hd ?t" using u by (metis hd_append2)
  then show "\<not> is_ws (hd (trim s))" using hd by (simp add: trim_def)
  show "\<not> is_ws (last (trim s))"
    using assms trimEnd_last [of ?t] by (simp add: trim_def)
qed

lemma trim_fixed:
  assumes "s = [] \<or> (\<not> is_ws (hd s) \<and> \<not> is_ws (last s))"
  shows "trim s = s"
proof (cases s)
  case Nil
  then show ?thesis by (simp add: trim_def trimStart_def trimEnd_def)
next
  case (Cons c cs)
  then have h: "\<not> is_ws c" and l: "\<not> is_ws (last s)" using assms by auto
  have 1: "trimStart s = s" using h Cons by (simp add: trimStart_def)
  have "rev s \<noteq> []" using Cons by simp
  then have "dropWhile is_ws (rev s) = rev s"
    using l by (cases "rev s") (auto simp: last_rev [symmetric] hd_rev)
  then show ?thesis by (simp add: trim_def 1 trimEnd_def)
qed

lemma trim_trim: "trim (trim s) = trim s"
  by (rule trim_fixed) (use trim_ends [of s] in blast)

lemma trim_nonempty_if: "c \<in> set s \<Longrightarrow> \<not> is_ws c \<Longrightarrow> trim s \<noteq> []"
  by (auto simp: trim_Nil_iff)

subsection \<open>Candidates are never blank\<close>

lemma bullet_not_blank:
  assumes "startsWith (trim l) (js ''- '')"
  shows "trim (trim (drop 2 (trim l))) \<noteq> []"
proof -
  obtain r where r: "trim l = js ''- '' @ r"
    using assms by (auto simp: startsWith_def prefix_def)
  then have ne: "trim l \<noteq> []" by (simp add: js_def)
  have r2: "drop 2 (trim l) = r" using r by (simp add: js_def)
  have "r \<noteq> []"
  proof
    assume "r = []"
    then have "last (trim l) = 32" using r by (simp add: js_def)
    then show False using trim_ends(2) [OF ne] by (simp add: is_ws_def)
  qed
  then have "last r = last (trim l)" using r by simp
  then have "\<not> is_ws (last r)" using trim_ends(2) [OF ne] by simp
  then have "trim r \<noteq> []"
    using \<open>r \<noteq> []\<close> trim_nonempty_if [of "last r" r] by simp
  then show ?thesis by (simp add: r2 trim_trim)
qed

lemma collect_bullets_not_blank: "b \<in> set (fst (collect_bullets ls)) \<Longrightarrow> trim b \<noteq> []"
proof (induction ls arbitrary: b)
  case Nil
  then show ?case by simp
next
  case (Cons l ls)
  show ?case
  proof (cases "startsWith (trim l) (js ''- '')")
    case True
    then have "b = trim (drop 2 (trim l)) \<or> b \<in> set (fst (collect_bullets ls))"
      using Cons.prems by (auto simp: Let_def split: prod.splits)
    then show ?thesis using bullet_not_blank [OF True] Cons.IH by auto
  next
    case False
    then show ?thesis using Cons.prems by (auto simp: Let_def split: if_splits)
  qed
qed

lemma search_boundary_Some:
  "search_boundary s = Some e \<Longrightarrow> e < length s \<and> is_terminal (s ! e) \<and> boundary_here (drop e s)"
proof (induction s arbitrary: e)
  case Nil
  then show ?case by simp
next
  case (Cons c cs)
  show ?case
  proof (cases "boundary_here (c # cs)")
    case True
    then show ?thesis using Cons.prems by (auto simp: boundary_here_def)
  next
    case False
    then obtain e' where "search_boundary cs = Some e'" "e = Suc e'"
      using Cons.prems by auto
    then show ?thesis using Cons.IH by simp
  qed
qed

lemma terminal_not_ws: "is_terminal c \<Longrightarrow> \<not> is_ws c"
  by (auto simp: is_terminal_def is_ws_def)

lemma inline_fact_not_blank: "inline_fact x \<noteq> [] \<Longrightarrow> trim (inline_fact x) \<noteq> []"
proof (cases "search_boundary (strip_prefix x)")
  case None
  then show "inline_fact x \<noteq> [] \<Longrightarrow> ?thesis" by (simp add: inline_fact_def trim_trim)
next
  case (Some e)
  let ?c = "strip_prefix x"
  have e: "e < length ?c" "is_terminal (?c ! e)" using search_boundary_Some [OF Some] by simp_all
  have "?c ! e \<in> set (take (Suc e) ?c)"
    using e(1) by (metis in_set_conv_nth length_take lessI min_less_iff_conj nth_take)
  then show ?thesis
    using terminal_not_ws [OF e(2)] trim_nonempty_if [of "?c ! e" "take (Suc e) ?c"]
    by (simp add: inline_fact_def Some)
qed

lemma candidates_not_blank: "f \<in> set (candidates ls) \<Longrightarrow> trim f \<noteq> []"
proof (induction ls arbitrary: f rule: candidates.induct)
  case 1
  then show ?case by simp
next
  case (2 l ls)
  show ?case
  proof (cases "indexOf (trimStart l) (js ''[MEMORY]'')")
    case None
    then show ?thesis using "2.prems" "2.IH"(1) by simp
  next
    case (Some memIdx)
    then show ?thesis
      using "2.prems" "2.IH"(2) [OF Some]
      by (auto split: if_splits dest: collect_bullets_not_blank inline_fact_not_blank)
  qed
qed

subsection \<open>Saving facts\<close>

lemma db_getIndex: "db (snd (getIndex ev a)) = db a"
  by (auto simp: getIndex_def split: option.splits)

lemma db_upsertMemory: "db (upsertMemory ev a i f c) = db a"
  using db_getIndex [of ev a]
  by (auto simp: upsertMemory_def split: prod.splits option.splits)

lemma saveFact_known: "known a f \<Longrightarrow> saveFact ev a f = (False, a)"
  by (auto simp: known_def saveFact_def)

lemma saveFact_unknown:
  assumes "\<not> known a f"
  shows "fst (saveFact ev a f) = True"
    and "memories (db (snd (saveFact ev a f))) = memories (db a) @ [new_row ev a f]"
  using assms
  by (auto simp: known_def saveFact_def new_Date_def dbInsertMemory_def db_upsertMemory
      getCurrentSessionId_def new_row_def Let_def)

lemma known_append:
  "memories (db a') = memories (db a) @ rows \<Longrightarrow> known a g \<Longrightarrow> known a' g"
  by (auto simp: known_def dbFindMemoryByFact_def find_None_iff)

lemma known_new_row:
  assumes "memories (db a') = memories (db a) @ [new_row ev a f]"
  shows "known a' f"
proof -
  have "new_row ev a f \<in> set (memories (db a'))"
    using assms by simp
  moreover have "fact (new_row ev a f) = f \<and> active (new_row ev a f)"
    by (simp add: new_row_def active_def)
  ultimately show ?thesis
    unfolding known_def dbFindMemoryByFact_def find_None_iff by blast
qed

lemma saveFact_cases:
  obtains (old) "known a f" "saveFact ev a f = (False, a)"
  | (new) a' where "\<not> known a f" "saveFact ev a f = (True, a')"
      "memories (db a') = memories (db a) @ [new_row ev a f]"
proof (cases "known a f")
  case True
  then show ?thesis using saveFact_known old by blast
next
  case False
  then show ?thesis
    using saveFact_unknown [OF False, of ev] new by (metis prod.collapse)
qed

text \<open>What a run of \<open>saveFact\<close> over a list of facts leaves.\<close>

lemma save_bullets_effect:
  "\<exists>rows. snd (save_bullets ev fs (saved, a)) = a' \<longrightarrow>
     memories (db a') = memories (db a) @ rows \<and>
     fst (save_bullets ev fs (saved, a)) = saved @ map fact rows \<and>
     set (map fact rows) \<subseteq> set fs \<and>
     (\<forall>r\<in>set rows. active r \<and> \<not> known a (fact r)) \<and>
     distinct (map fact rows) \<and>
     (\<forall>f\<in>set fs. known a' f)"
proof (induction fs arbitrary: saved a)
  case Nil
  show ?case by (rule exI [of _ "[]"]) auto
next
  case (Cons f fs)
  show ?case
  proof (cases rule: saveFact_cases [of a f ev])
    case old
    obtain rows where rows: "snd (save_bullets ev fs (saved, a)) = a' \<longrightarrow>
       memories (db a') = memories (db a) @ rows \<and>
       fst (save_bullets ev fs (saved, a)) = saved @ map fact rows \<and>
       set (map fact rows) \<subseteq> set fs \<and>
       (\<forall>r\<in>set rows. active r \<and> \<not> known a (fact r)) \<and>
       distinct (map fact rows) \<and>
       (\<forall>f\<in>set fs. known a' f)"
      using Cons.IH [of saved a] by blast
    show ?thesis
    proof (rule exI [of _ rows], rule impI)
      assume "snd (save_bullets ev (f # fs) (saved, a)) = a'"
      then have "snd (save_bullets ev fs (saved, a)) = a'" using old by simp
      with rows have r: "memories (db a') = memories (db a) @ rows"
        "fst (save_bullets ev fs (saved, a)) = saved @ map fact rows"
        "set (map fact rows) \<subseteq> set fs"
        "\<forall>r\<in>set rows. active r \<and> \<not> known a (fact r)"
        "distinct (map fact rows)"
        "\<forall>f\<in>set fs. known a' f" by blast+
      have "known a' f" using known_append [OF r(1) old(1)] .
      then show "memories (db a') = memories (db a) @ rows \<and>
        fst (save_bullets ev (f # fs) (saved, a)) = saved @ map fact rows \<and>
        set (map fact rows) \<subseteq> set (f # fs) \<and>
        (\<forall>r\<in>set rows. active r \<and> \<not> known a (fact r)) \<and>
        distinct (map fact rows) \<and>
        (\<forall>f\<in>set (f # fs). known a' f)"
        using r old by auto
    qed
  next
    case (new a1)
    obtain rows where rows: "snd (save_bullets ev fs (saved @ [f], a1)) = a' \<longrightarrow>
       memories (db a') = memories (db a1) @ rows \<and>
       fst (save_bullets ev fs (saved @ [f], a1)) = (saved @ [f]) @ map fact rows \<and>
       set (map fact rows) \<subseteq> set fs \<and>
       (\<forall>r\<in>set rows. active r \<and> \<not> known a1 (fact r)) \<and>
       distinct (map fact rows) \<and>
       (\<forall>f\<in>set fs. known a' f)"
      using Cons.IH [of "saved @ [f]" a1] by blast
    have k1: "known a1 f" using known_new_row [OF new(3)] .
    show ?thesis
    proof (rule exI [of _ "new_row ev a f # rows"], rule impI)
      assume "snd (save_bullets ev (f # fs) (saved, a)) = a'"
      then have "snd (save_bullets ev fs (saved @ [f], a1)) = a'" using new by simp
      with rows have r: "memories (db a') = memories (db a1) @ rows"
        "fst (save_bullets ev fs (saved @ [f], a1)) = (saved @ [f]) @ map fact rows"
        "set (map fact rows) \<subseteq> set fs"
        "\<forall>r\<in>set rows. active r \<and> \<not> known a1 (fact r)"
        "distinct (map fact rows)"
        "\<forall>f\<in>set fs. known a' f" by blast+
      have "known a' f" using known_append [OF r(1) k1] .
      moreover have "\<forall>r\<in>set rows. \<not> known a (fact r)"
        using r(4) known_append [OF new(3)] by blast
      moreover have "f \<notin> set (map fact rows)" using r(4) k1 by auto
      moreover have "fact (new_row ev a f) = f" "active (new_row ev a f)"
        by (simp_all add: new_row_def active_def)
      ultimately show "memories (db a') = memories (db a) @ new_row ev a f # rows \<and>
        fst (save_bullets ev (f # fs) (saved, a)) = saved @ map fact (new_row ev a f # rows) \<and>
        set (map fact (new_row ev a f # rows)) \<subseteq> set (f # fs) \<and>
        (\<forall>r\<in>set (new_row ev a f # rows). active r \<and> \<not> known a (fact r)) \<and>
        distinct (map fact (new_row ev a f # rows)) \<and>
        (\<forall>f\<in>set (f # fs). known a' f)"
        using r new by auto
    qed
  qed
qed

lemma save_bullets_all_known:
  "\<forall>f\<in>set fs. known a f \<Longrightarrow> save_bullets ev fs (saved, a) = (saved, a)"
  by (induction fs) (simp_all add: saveFact_known)

lemma known_sync: "known (syncMemoryMarkdown a) f = known a f"
  by (simp add: known_def syncMemoryMarkdown_def)

lemma db_sync: "db (syncMemoryMarkdown a) = db a"
  by (simp add: syncMemoryMarkdown_def)

lemma extract_effect:
  obtains rows where
    "memories (db (snd (extractAndSaveMemories ev a responseText))) = memories (db a) @ rows"
    "fst (extractAndSaveMemories ev a responseText) = map fact rows"
    "set (map fact rows) \<subseteq> set (candidates (split_on 10 responseText))"
    "\<forall>r\<in>set rows. active r \<and> \<not> known a (fact r)"
    "distinct (map fact rows)"
    "\<forall>f\<in>set (candidates (split_on 10 responseText)). known (snd (extractAndSaveMemories ev a responseText)) f"
proof -
  let ?fs = "candidates (split_on 10 responseText)"
  let ?r = "save_bullets ev ?fs ([], a)"
  obtain rows where rows:
    "memories (db (snd ?r)) = memories (db a) @ rows"
    "fst ?r = [] @ map fact rows"
    "set (map fact rows) \<subseteq> set ?fs"
    "\<forall>r\<in>set rows. active r \<and> \<not> known a (fact r)"
    "distinct (map fact rows)"
    "\<forall>f\<in>set ?fs. known (snd ?r) f"
    using save_bullets_effect [of ev ?fs "[]" a "snd ?r"] by blast
  have e: "extractAndSaveMemories ev a responseText =
      (fst ?r, if fst ?r \<noteq> [] then syncMemoryMarkdown (snd ?r) else snd ?r)"
    by (simp add: extractAndSaveMemories_def extract_loop_candidates split: prod.splits)
  have 1: "db (snd (extractAndSaveMemories ev a responseText)) = db (snd ?r)"
    by (simp add: e db_sync)
  have 2: "known (snd (extractAndSaveMemories ev a responseText)) f = known (snd ?r) f" for f
    by (simp add: known_def 1)
  show ?thesis
    using that [of rows] rows by (simp add: 1 2) (simp add: e)
qed

text \<open>
  Claim C3. For every response text, state and environment: a second call of
  \<open>extractAndSaveMemories\<close> with the same text (in any environment) returns no fact and
  leaves the whole state, the stored memories with it, as the first call left it. The
  first call appends rows to the stored memories and changes no other row; the facts of
  these new rows are, in order, exactly what it returns; they are distinct, all active, and
  none of them was an active memory before the call: a candidate that already was one is
  dropped without an error.
\<close>

theorem extraction_idempotent:
  "extractAndSaveMemories ev' (snd (extractAndSaveMemories ev a responseText)) responseText =
     ([], snd (extractAndSaveMemories ev a responseText)) \<and>
   (\<exists>rows. memories (db (snd (extractAndSaveMemories ev a responseText))) = memories (db a) @ rows \<and>
      map fact rows = fst (extractAndSaveMemories ev a responseText) \<and>
      (\<forall>r\<in>set rows. active r)) \<and>
   distinct (fst (extractAndSaveMemories ev a responseText)) \<and>
   (\<forall>f\<in>set (fst (extractAndSaveMemories ev a responseText)). dbFindMemoryByFact (db a) f = None)"
proof -
  let ?a1 = "snd (extractAndSaveMemories ev a responseText)"
  let ?fs = "candidates (split_on 10 responseText)"
  obtain rows where rows:
    "memories (db ?a1) = memories (db a) @ rows"
    "fst (extractAndSaveMemories ev a responseText) = map fact rows"
    "\<forall>r\<in>set rows. active r \<and> \<not> known a (fact r)"
    "distinct (map fact rows)"
    "\<forall>f\<in>set ?fs. known ?a1 f"
    by (rule extract_effect [of ev a responseText]) blast
  have "save_bullets ev' ?fs ([], ?a1) = ([], ?a1)"
    using rows(5) by (rule save_bullets_all_known)
  then have again: "extractAndSaveMemories ev' ?a1 responseText = ([], ?a1)"
    by (simp add: extractAndSaveMemories_def extract_loop_candidates)
  have none: "\<forall>f\<in>set (map fact rows). dbFindMemoryByFact (db a) f = None"
    using rows(3) by (auto simp: known_def)
  show ?thesis
    using again rows(1,3,4) none unfolding rows(2) by blast
qed

text \<open>
  Claim C9. For every response text, every fact \<open>extractAndSaveMemories\<close> returns and
  every row it adds to the stored memories has a fact that is not empty after trimming.
\<close>

theorem no_empty_facts:
  "(\<forall>f\<in>set (fst (extractAndSaveMemories ev a responseText)). trim f \<noteq> []) \<and>
   (\<exists>rows. memories (db (snd (extractAndSaveMemories ev a responseText))) = memories (db a) @ rows \<and>
      (\<forall>r\<in>set rows. trim (fact r) \<noteq> []))"
proof -
  obtain rows where rows:
    "memories (db (snd (extractAndSaveMemories ev a responseText))) = memories (db a) @ rows"
    "fst (extractAndSaveMemories ev a responseText) = map fact rows"
    "set (map fact rows) \<subseteq> set (candidates (split_on 10 responseText))"
    by (rule extract_effect [of ev a responseText]) blast
  have "\<forall>r\<in>set rows. trim (fact r) \<noteq> []"
    using rows(3) candidates_not_blank by auto
  then show ?thesis
    using rows(1) unfolding rows(2) by auto
qed

lemma js_Nil: "js [] = []" and js_Cons: "js (c # cs) = of_char c # js cs"
  by (simp_all add: js_def)

lemmas string_eval =
  js_Nil js_Cons is_ws_def trimStart_def trimEnd_def trim_def startsWith_def
  lower_ascii_def is_word_def is_terminal_def is_upper_def match_ci_def strip_prefix_def
  boundary_here_def strip_trailing_def inline_fact_def

lemmas store_eval =
  empty_store_def dbGetSession_def dbCreateSession_def update_row_def no_update_def
  dbUpdateSession_def dbListSessions_def valid_role_def dbInsertMessage_def dbGetMessages_def
  dbInsertMemory_def active_def dbGetActiveMemories_def dbFindMemoryByFact_def has_memory_def
  dbSupersedeMemory_def dbDeleteSession_def run_ops_def

lemmas memory_eval =
  extractAndSaveMemories_def saveFact_def new_Date_def isVectorEnabled_def truthy_def
  getCurrentSessionId_def syncMemoryMarkdown_def Let_def

lemma takeWhile_run:
  "\<forall>x\<in>set xs. P x \<Longrightarrow> \<not> P y \<Longrightarrow> takeWhile P (xs @ y # ys) = xs"
  by (induction xs) auto

lemma dropWhile_run:
  "\<forall>x\<in>set xs. P x \<Longrightarrow> \<not> P y \<Longrightarrow> dropWhile P (xs @ y # ys) = y # ys"
  by (induction xs) auto

lemma upper_not_ws: "is_upper d \<Longrightarrow> \<not> is_ws d"
  by (auto simp: is_upper_def is_ws_def)

lemma colon_not_word: "\<not> is_word 58"
  by (simp add: is_word_def)

lemma boundary_here_iff: "boundary_here (drop e s) \<longleftrightarrow> sentence_boundary s e"
proof
  assume b: "boundary_here (drop e s)"
  then obtain c r where cr: "drop e s = c # r"
    by (cases "drop e s") (auto simp: boundary_here_def)
  from b cr have c: "is_terminal c" and w: "takeWhile is_ws r \<noteq> []"
    by (auto simp: boundary_here_def)
  from b cr obtain d r' where d: "dropWhile is_ws r = d # r'" "is_upper d"
    by (cases "dropWhile is_ws r") (auto simp: boundary_here_def)
  have "r = takeWhile is_ws r @ d # r'"
    using d(1) takeWhile_dropWhile_id [of is_ws r] by simp
  then have "drop e s = c # takeWhile is_ws r @ d # r'" using cr by simp
  moreover have "list_all is_ws (takeWhile is_ws r)"
    by (auto simp: list_all_iff dest: set_takeWhileD)
  ultimately show "sentence_boundary s e"
    unfolding sentence_boundary_def using c w d(2) by blast
next
  assume "sentence_boundary s e"
  then obtain c ws d rest where h: "drop e s = c # ws @ d # rest" "is_terminal c" "ws \<noteq> []"
      "list_all is_ws ws" "is_upper d"
    unfolding sentence_boundary_def by blast
  have all: "\<forall>x\<in>set ws. is_ws x" using h(4) by (simp add: list_all_iff)
  have nd: "\<not> is_ws d" using h(5) by (rule upper_not_ws)
  show "boundary_here (drop e s)"
    using h(2,3,5)
    by (simp add: h(1) boundary_here_def takeWhile_run [OF all nd] dropWhile_run [OF all nd])
qed

lemma search_boundary_None: "search_boundary s = None \<longleftrightarrow> (\<forall>e. \<not> boundary_here (drop e s))"
proof (induction s)
  case Nil
  show ?case by (simp add: boundary_here_def)
next
  case (Cons c cs)
  have "(\<forall>e. \<not> boundary_here (drop e (c # cs))) \<longleftrightarrow>
        \<not> boundary_here (c # cs) \<and> (\<forall>e. \<not> boundary_here (drop e cs))"
  proof
    assume a: "\<forall>e. \<not> boundary_here (drop e (c # cs))"
    have "\<not> boundary_here (drop (Suc e) (c # cs))" for e using a by blast
    then show "\<not> boundary_here (c # cs) \<and> (\<forall>e. \<not> boundary_here (drop e cs))"
      using a [rule_format, of 0] by simp
  next
    assume a: "\<not> boundary_here (c # cs) \<and> (\<forall>e. \<not> boundary_here (drop e cs))"
    show "\<forall>e. \<not> boundary_here (drop e (c # cs))"
    proof
      fix e show "\<not> boundary_here (drop e (c # cs))" using a by (cases e) auto
    qed
  qed
  then show ?case using Cons.IH by auto
qed

lemma search_boundary_least:
  "search_boundary s = Some e \<Longrightarrow> e' < e \<Longrightarrow> \<not> boundary_here (drop e' s)"
proof (induction s arbitrary: e e')
  case Nil
  then show ?case by simp
next
  case (Cons c cs)
  have nb: "\<not> boundary_here (c # cs)" using Cons.prems by (auto split: if_splits)
  then obtain e0 where e0: "search_boundary cs = Some e0" "e = Suc e0"
    using Cons.prems by auto
  show ?case
  proof (cases e')
    case 0
    then show ?thesis using nb by simp
  next
    case (Suc k)
    then have "k < e0" using Cons.prems(2) e0(2) by simp
    then show ?thesis using Cons.IH [OF e0(1)] Suc by simp
  qed
qed

lemma search_boundary_first:
  assumes "sentence_boundary s e" and "\<forall>e'<e. \<not> sentence_boundary s e'"
  shows "search_boundary s = Some e"
proof -
  have "search_boundary s \<noteq> None"
    using assms(1) by (auto simp: search_boundary_None boundary_here_iff)
  then obtain k where k: "search_boundary s = Some k" by auto
  have bk: "sentence_boundary s k"
    using search_boundary_Some [OF k] by (simp add: boundary_here_iff)
  have "\<not> k < e" using assms(2) bk by blast
  moreover have "\<not> e < k"
    using search_boundary_least [OF k, of e] assms(1) by (auto simp: boundary_here_iff)
  ultimately show ?thesis using k by simp
qed

lemma strip_trailing_decomp:
  "\<exists>p. s = strip_trailing s @ p \<and> list_all is_terminal p \<and>
       (strip_trailing s = [] \<or> \<not> is_terminal (last (strip_trailing s)))"
proof -
  have "rev s = takeWhile is_terminal (rev s) @ dropWhile is_terminal (rev s)" by simp
  then have "s = rev (dropWhile is_terminal (rev s)) @ rev (takeWhile is_terminal (rev s))"
    by (metis rev_append rev_rev_ident)
  moreover have "list_all is_terminal (rev (takeWhile is_terminal (rev s)))"
    by (auto simp: list_all_iff dest: set_takeWhileD)
  moreover have "dropWhile is_terminal (rev s) \<noteq> [] \<Longrightarrow>
      \<not> is_terminal (last (rev (dropWhile is_terminal (rev s))))"
    using hd_dropWhile [of is_terminal "rev s"] by (simp add: last_rev)
  ultimately show ?thesis unfolding strip_trailing_def by blast
qed

lemma match_ci_Some:
  "match_ci pat s = Some r \<Longrightarrow> \<exists>k. s = k @ r \<and> map lower_ascii k = pat"
  by (auto simp: match_ci_def split: if_splits intro: exI [of _ "take (length pat) s"])

lemma match_ci_hit:
  "map lower_ascii k = pat \<Longrightarrow> match_ci pat (k @ r) = Some r"
  by (auto simp: match_ci_def)

lemma match_ci_miss:
  "length pat \<le> length k \<Longrightarrow> take (length pat) (map lower_ascii k) \<noteq> pat \<Longrightarrow>
   match_ci pat (k @ r) = None"
  by (auto simp: match_ci_def take_map)

lemma split_lower:
  assumes "map lower_ascii h = a @ b"
  shows "\<exists>k1 k2. h = k1 @ k2 \<and> map lower_ascii k1 = a \<and> map lower_ascii k2 = b"
proof -
  have "h = take (length a) h @ drop (length a) h" by simp
  moreover have "map lower_ascii (take (length a) h) = a"
    using arg_cong [OF assms, of "take (length a)"] by (simp add: take_map)
  moreover have "map lower_ascii (drop (length a) h) = b"
    using arg_cong [OF assms, of "drop (length a)"] by (simp add: drop_map)
  ultimately show ?thesis by blast
qed

lemma strip_prefix_form:
  assumes "prefix_form p"
  shows "strip_prefix (p @ y) = trimStart y"
proof -
  obtain h w where p: "p = h @ w @ js '':''"
      and h: "map lower_ascii h = js ''added to '' \<or> map lower_ascii h = js ''updated to ''"
      and w: "w \<noteq> []" "list_all is_word w"
    using assms unfolding prefix_form_def by blast
  let ?r2 = "w @ 58 # y"
  obtain k1 k2 where k: "h = k1 @ k2" "map lower_ascii k2 = js '' to ''"
      "map lower_ascii k1 = js ''added'' \<or> map lower_ascii k1 = js ''updated''"
  proof -
    have a: "js ''added to '' = js ''added'' @ js '' to ''"
      and u: "js ''updated to '' = js ''updated'' @ js '' to ''"
      by (simp_all add: js_def)
    show ?thesis
      using h split_lower [of h "js ''added''" "js '' to ''"]
        split_lower [of h "js ''updated''" "js '' to ''"] that
      unfolding a u by blast
  qed
  have x: "p @ y = k1 @ (k2 @ ?r2)" by (simp add: p k(1) js_def)
  have m1: "(case match_ci (js ''added'') (k1 @ (k2 @ ?r2)) of Some r \<Rightarrow> Some r
             | None \<Rightarrow> match_ci (js ''updated'') (k1 @ (k2 @ ?r2))) = Some (k2 @ ?r2)"
    using k(3)
  proof
    assume "map lower_ascii k1 = js ''added''"
    then show ?thesis by (simp add: match_ci_hit)
  next
    assume u: "map lower_ascii k1 = js ''updated''"
    have "length (js ''added'') \<le> length k1"
      using arg_cong [OF u, of length] by (simp add: js_def)
    moreover have "take (length (js ''added'')) (map lower_ascii k1) \<noteq> js ''added''"
      by (simp add: u) (simp add: js_def)
    ultimately have "match_ci (js ''added'') (k1 @ (k2 @ ?r2)) = None"
      by (rule match_ci_miss)
    then show ?thesis by (simp add: match_ci_hit [OF u])
  qed
  have m2: "match_ci (js '' to '') (k2 @ ?r2) = Some ?r2"
    by (rule match_ci_hit [OF k(2)])
  have all: "\<forall>c\<in>set w. is_word c" using w(2) by (simp add: list_all_iff)
  have t: "takeWhile is_word ?r2 = w" "dropWhile is_word ?r2 = 58 # y"
    using takeWhile_run [OF all colon_not_word] dropWhile_run [OF all colon_not_word] by simp_all
  show ?thesis
    unfolding x strip_prefix_def m1 option.case m2 t
    using w(1) by (simp add: trimStart_def)
qed

lemma strip_prefix_cases:
  "strip_prefix x = x \<or> (\<exists>p y. prefix_form p \<and> x = p @ y \<and> strip_prefix x = trimStart y)"
proof (cases "strip_prefix x = x")
  case True
  then show ?thesis by simp
next
  case False
  let ?m = "case match_ci (js ''added'') x of Some r \<Rightarrow> Some r | None \<Rightarrow> match_ci (js ''updated'') x"
  obtain r1 where r1: "?m = Some r1"
    using False by (cases ?m) (auto simp: strip_prefix_def)
  obtain r2 where r2: "match_ci (js '' to '') r1 = Some r2"
    using False r1 by (cases "match_ci (js '' to '') r1") (auto simp: strip_prefix_def)
  have w: "takeWhile is_word r2 \<noteq> []"
    using False r1 r2 by (auto simp: strip_prefix_def)
  obtain r3 where r3: "dropWhile is_word r2 = 58 # r3"
    using False r1 r2 w
    by (cases "dropWhile is_word r2") (auto simp: strip_prefix_def split: if_splits)
  have res: "strip_prefix x = trimStart r3"
    using r1 r2 w r3 by (simp add: strip_prefix_def trimStart_def)
  obtain k1 where k1: "x = k1 @ r1"
      "map lower_ascii k1 = js ''added'' \<or> map lower_ascii k1 = js ''updated''"
  proof (cases "match_ci (js ''added'') x")
    case None
    then have "match_ci (js ''updated'') x = Some r1" using r1 by simp
    then show ?thesis using that match_ci_Some by blast
  next
    case (Some r)
    then have "match_ci (js ''added'') x = Some r1" using r1 by simp
    then show ?thesis using that match_ci_Some by blast
  qed
  obtain k2 where k2: "r1 = k2 @ r2" "map lower_ascii k2 = js '' to ''"
    using match_ci_Some [OF r2] by blast
  have h: "map lower_ascii (k1 @ k2) = js ''added to '' \<or> map lower_ascii (k1 @ k2) = js ''updated to ''"
    using k1(2) k2(2) by (auto simp: js_def)
  have "r2 = takeWhile is_word r2 @ 58 # r3"
    using r3 takeWhile_dropWhile_id [of is_word r2] by simp
  then have "x = ((k1 @ k2) @ takeWhile is_word r2 @ js '':'') @ r3"
    using k1(1) k2(1) by (simp add: js_def)
  moreover have "list_all is_word (takeWhile is_word r2)"
    by (auto simp: list_all_iff dest: set_takeWhileD)
  then have "prefix_form ((k1 @ k2) @ takeWhile is_word r2 @ js '':'')"
    unfolding prefix_form_def using h w by blast
  ultimately show ?thesis using res by blast
qed

lemma extract_single_candidate:
  assumes c: "candidates (split_on 10 responseText) = [f]" and n: "dbFindMemoryByFact (db a) f = None"
  shows "fst (extractAndSaveMemories ev a responseText) = [f] \<and>
         memories (db (snd (extractAndSaveMemories ev a responseText))) = memories (db a) @ [new_row ev a f]"
proof -
  have nk: "\<not> known a f" using n by (simp add: known_def)
  obtain a1 where a1: "saveFact ev a f = (True, a1)"
      "memories (db a1) = memories (db a) @ [new_row ev a f]"
    using saveFact_unknown [OF nk, of ev] by (metis prod.collapse)
  show ?thesis
    by (simp add: extractAndSaveMemories_def extract_loop_candidates c a1 db_sync)
qed

lemma pixel_candidates:
  "candidates (split_on 10 (js ''[MEMORY] Added to memories: User has a cat named Pixel'')) =
     [js ''User has a cat named Pixel'']"
  by (simp add: string_eval)

text \<open>
  Claim C6. On the line \<open>[MEMORY] Added to memories: User has a cat named Pixel\<close>, in a
  state where that fact is not yet an active memory, the extraction returns and stores
  exactly \<open>User has a cat named Pixel\<close>. In general, a marker line that no bullet list
  follows yields at most the one candidate \<open>inline_fact\<close> of the trimmed text after the
  marker, and the loop goes on after the lines the bullet scan went past. A prefix of the
  form "added/updated to <word>:" (in any case) is stripped with the white space after
  it, and nothing else is ever stripped in front. If the rest has a sentence boundary, the
  candidate is the rest up to and including the terminator of the first boundary; if it has
  none, the candidate is the rest without its trailing run of terminal punctuation, trimmed.
\<close>

theorem inline_fact_parsing:
  "(dbFindMemoryByFact (db a) (js ''User has a cat named Pixel'') = None \<longrightarrow>
      fst (extractAndSaveMemories ev a (js ''[MEMORY] Added to memories: User has a cat named Pixel''))
        = [js ''User has a cat named Pixel''] \<and>
      memories (db (snd (extractAndSaveMemories ev a
          (js ''[MEMORY] Added to memories: User has a cat named Pixel''))))
        = memories (db a) @ [new_row ev a (js ''User has a cat named Pixel'')]) \<and>
   (indexOf (trimStart l) (js ''[MEMORY]'') = Some memIdx \<and> fst (collect_bullets ls) = [] \<longrightarrow>
      extract_loop ev (l # ls) (saved, a) =
        extract_loop ev (drop (snd (collect_bullets ls)) ls)
          (save_bullets ev
             (if inline_fact (trim (drop (memIdx + 8) (trimStart l))) = [] then []
              else [inline_fact (trim (drop (memIdx + 8) (trimStart l)))])
             (saved, a))) \<and>
   (prefix_form p \<longrightarrow> strip_prefix (p @ y) = trimStart y) \<and>
   (strip_prefix x = x \<or> (\<exists>p y. prefix_form p \<and> x = p @ y \<and> strip_prefix x = trimStart y)) \<and>
   (sentence_boundary (strip_prefix x) e \<and> (\<forall>e'<e. \<not> sentence_boundary (strip_prefix x) e') \<longrightarrow>
      inline_fact x = take (Suc e) (strip_prefix x)) \<and>
   ((\<forall>e. \<not> sentence_boundary (strip_prefix x) e) \<longrightarrow>
      inline_fact x = trim (strip_trailing (strip_prefix x))) \<and>
   (\<exists>q. s = strip_trailing s @ q \<and> list_all is_terminal q \<and>
        (strip_trailing s = [] \<or> \<not> is_terminal (last (strip_trailing s))))"
proof -
  have len: "length (js ''[MEMORY]'') = 8" by (simp add: js_def)
  have loop: "extract_loop ev (l # ls) (saved, a) =
        extract_loop ev (drop (snd (collect_bullets ls)) ls)
          (save_bullets ev
             (if inline_fact (trim (drop (memIdx + 8) (trimStart l))) = [] then []
              else [inline_fact (trim (drop (memIdx + 8) (trimStart l)))])
             (saved, a))"
    if "indexOf (trimStart l) (js ''[MEMORY]'') = Some memIdx" "fst (collect_bullets ls) = []"
    using that by (auto simp: len Let_def split: prod.splits bool.splits)
  have first: "inline_fact x = take (Suc e) (strip_prefix x)"
    if "sentence_boundary (strip_prefix x) e" "\<forall>e'<e. \<not> sentence_boundary (strip_prefix x) e'"
    using search_boundary_first [OF that] by (simp add: inline_fact_def)
  have none: "inline_fact x = trim (strip_trailing (strip_prefix x))"
    if "\<forall>e. \<not> sentence_boundary (strip_prefix x) e"
  proof -
    have "search_boundary (strip_prefix x) = None"
      using that by (simp add: search_boundary_None boundary_here_iff)
    then show ?thesis by (simp add: inline_fact_def)
  qed
  show ?thesis
    using extract_single_candidate [OF pixel_candidates, of a ev] loop first none
      strip_prefix_form [of p y] strip_prefix_cases [of x] strip_trailing_decomp [of s]
    by blast
qed

lemmas scenario_eval = plain_env_def empty_app_def coffee_text_def pixel_text_def tea_text_def

theorem extraction_idempotent_witness:
  "fst (extractAndSaveMemories plain_env empty_app coffee_text) = [js ''User likes coffee''] \<and>
   extractAndSaveMemories plain_env (snd (extractAndSaveMemories plain_env empty_app coffee_text))
     coffee_text = ([], snd (extractAndSaveMemories plain_env empty_app coffee_text)) \<and>
   list_all (\<lambda>f. dbFindMemoryByFact (db empty_app) f = None)
     (fst (extractAndSaveMemories plain_env empty_app coffee_text))"
proof -
  note th = extraction_idempotent [of plain_env plain_env empty_app coffee_text]
  have 1: "fst (extractAndSaveMemories plain_env empty_app coffee_text) = [js ''User likes coffee'']"
    by (simp add: scenario_eval string_eval store_eval memory_eval)
  have 2: "extractAndSaveMemories plain_env (snd (extractAndSaveMemories plain_env empty_app coffee_text))
     coffee_text = ([], snd (extractAndSaveMemories plain_env empty_app coffee_text))"
    using th by (elim conjE)
  have 3: "\<forall>f\<in>set (fst (extractAndSaveMemories plain_env empty_app coffee_text)).
      dbFindMemoryByFact (db empty_app) f = None"
    using th by (elim conjE)
  show ?thesis
    using 1 2 3 [folded list_all_iff] by (intro conjI)
qed

theorem no_empty_facts_witness:
  "fst (extractAndSaveMemories plain_env empty_app tea_text) = [js ''Likes tea''] \<and>
   list_all (\<lambda>f. trim f \<noteq> []) (fst (extractAndSaveMemories plain_env empty_app tea_text))"
proof -
  note th = no_empty_facts [of plain_env empty_app tea_text]
  have 1: "fst (extractAndSaveMemories plain_env empty_app tea_text) = [js ''Likes tea'']"
    by (simp add: scenario_eval string_eval store_eval memory_eval)
  have 2: "\<forall>f\<in>set (fst (extractAndSaveMemories plain_env empty_app tea_text)). trim f \<noteq> []"
    using th by (elim conjE)
  show ?thesis
    using 1 2 [folded list_all_iff] by (intro conjI)
qed

theorem inline_fact_parsing_witness:
  "fst (extractAndSaveMemories plain_env empty_app
         (js ''[MEMORY] Added to memories: User has a cat named Pixel''))
     = [js ''User has a cat named Pixel''] \<and>
   strip_prefix (js ''UPDATED To notes:'' @ js ''   Likes tea.'') = js ''Likes tea.'' \<and>
   inline_fact hiking = js ''User enjoys hiking.'' \<and>
   inline_fact blue = js ''User's favorite color is blue''"
proof -
  note pixel = inline_fact_parsing [of empty_app plain_env, THEN conjunct1]
  have "dbFindMemoryByFact (db empty_app) (js ''User has a cat named Pixel'') = None"
    by (simp add: scenario_eval store_eval)
  with pixel have 1: "fst (extractAndSaveMemories plain_env empty_app
         (js ''[MEMORY] Added to memories: User has a cat named Pixel''))
     = [js ''User has a cat named Pixel'']"
    by blast
  have "prefix_form (js ''UPDATED To notes:'')"
    unfolding prefix_form_def
    by (intro exI [of _ "js ''UPDATED To ''"] exI [of _ "js ''notes''"])
       (simp add: string_eval)
  then have "strip_prefix (js ''UPDATED To notes:'' @ js ''   Likes tea.'') = trimStart (js ''   Likes tea.'')"
    using inline_fact_parsing [where p = "js ''UPDATED To notes:''" and y = "js ''   Likes tea.''"]
    by blast
  then have 2: "strip_prefix (js ''UPDATED To notes:'' @ js ''   Likes tea.'') = js ''Likes tea.''"
    by (simp add: string_eval)
  have sp: "strip_prefix hiking = hiking" "strip_prefix blue = blue"
    by (simp_all add: hiking_def blue_def string_eval)
  have sb: "search_boundary hiking = Some 18"
    by (simp add: hiking_def string_eval)
  have "sentence_boundary (strip_prefix hiking) 18 \<and>
        (\<forall>e'<18. \<not> sentence_boundary (strip_prefix hiking) e')"
    using search_boundary_Some [OF sb] search_boundary_least [OF sb]
    by (simp add: sp boundary_here_iff)
  then have "inline_fact hiking = take (Suc 18) (strip_prefix hiking)"
    using inline_fact_parsing [where x = hiking and e = 18] by blast
  then have 3: "inline_fact hiking = js ''User enjoys hiking.''"
    by (simp add: sp) (simp add: hiking_def string_eval)
  have "search_boundary blue = None"
    by (simp add: blue_def string_eval)
  then have "\<forall>e. \<not> sentence_boundary (strip_prefix blue) e"
    by (simp add: sp search_boundary_None boundary_here_iff)
  then have "inline_fact blue = trim (strip_trailing (strip_prefix blue))"
    using inline_fact_parsing [where x = blue] by blast
  then have 4: "inline_fact blue = js ''User's favorite color is blue''"
    by (simp add: sp) (simp add: blue_def string_eval)
  show ?thesis
    using 1 2 3 4 by (intro conjI)
qed

section \<open>Session titles\<close>

lemmas session_eval =
  initSession_def nextSessionId_def todayPrefix_def new_Date_def appendMessage_def jsonlLine_def
  write_lines_def append_lines_def padStart0_def endsWith_def startsWith_def stored_title_def
  Let_def

lemma decimal_1: "decimal 1 = [49]"
  by (simp add: decimal.simps)

text \<open>
  Claim C8 at the failing input. A session is created by \<open>initSession\<close>; its first user
  message is the text \<open>New session\<close>, so the title derived from it is the very string
  \<open>appendMessage\<close> takes for "not titled yet"; the second user message \<open>Hello\<close> then
  replaces the title, which the claim says never changes again.
\<close>

theorem retitled_after_sentinel_title:
  "stored_title (snd (initSession plain_env empty_app)) = Some (js ''New session'') \<and>
   stored_title (snd (appendMessage plain_env (snd (initSession plain_env empty_app)) first_msg))
     = Some (js ''New session'') \<and>
   stored_title
     (snd (appendMessage plain_env
        (snd (appendMessage plain_env (snd (initSession plain_env empty_app)) first_msg))
        second_msg))
     = Some (js ''Hello'')"
  apply (simp add: session_eval scenario_eval store_eval js_Nil js_Cons decimal_1 first_msg_def second_msg_def)
  done

lemma find_update_row:
  "find (\<lambda>r. s_id r = i) (map (\<lambda>r. if s_id r = i then update_row u r else r) rs) =
     map_option (update_row u) (find (\<lambda>r. s_id r = i) rs)"
  by (induction rs) (auto simp: update_row_def)

lemma dbGetSession_update:
  "dbGetSession (dbUpdateSession st i u) i = map_option (update_row u) (dbGetSession st i)"
  by (simp add: dbGetSession_def dbUpdateSession_def find_update_row)

lemma dbGetSession_insert:
  "dbInsertMessage st sid r c ts tc = Inr (n, st') \<Longrightarrow> dbGetSession st' i = dbGetSession st i"
  by (auto simp: dbInsertMessage_def dbGetSession_def split: if_splits)

lemma dbGetSession_s_id: "dbGetSession st i = Some r \<Longrightarrow> s_id r = i"
  by (auto simp: dbGetSession_def find_Some_iff)

lemma insert_ok:
  "dbGetSession st sid \<noteq> None \<Longrightarrow> \<exists>n st'. dbInsertMessage st sid (role_name r) c ts tc = Inr (n, st')"
  by (cases r) (auto simp: dbInsertMessage_def valid_role_def js_def)

lemma appendMessage_title:
  assumes "currentSessionId a = Some sid" and "stored_title a = Some t"
  shows "currentSessionId (snd (appendMessage ev a m)) = Some sid \<and>
         stored_title (snd (appendMessage ev a m)) =
           Some (if t = js ''New session'' \<and> role m = User then take 60 (content m) else t)"
proof -
  obtain r where r: "dbGetSession (db a) sid = Some r" "s_title r = Some t"
    using assms by (auto simp: stored_title_def split: option.splits)
  have sid: "s_id r = sid" using r(1) by (rule dbGetSession_s_id)
  obtain n st' where ins:
    "dbInsertMessage (db a) sid (role_name (role m)) (content m) (timestamp m) None = Inr (n, st')"
    using insert_ok [of "db a" sid] r(1) by fastforce
  have g: "dbGetSession st' sid = Some r"
    using dbGetSession_insert [OF ins] r(1) by simp
  show ?thesis
    using assms(1) r sid ins g
    by (auto simp: appendMessage_def new_Date_def jsonlLine_def stored_title_def Let_def
        dbGetSession_update update_row_def no_update_def
        split: option.splits sum.splits prod.splits)
qed

lemma append_all_titled:
  assumes "currentSessionId a = Some sid" and "stored_title a = Some t" and "t \<noteq> js ''New session''"
  shows "currentSessionId (append_all ev a ms) = Some sid \<and> stored_title (append_all ev a ms) = Some t"
  using assms
proof (induction ms arbitrary: a)
  case Nil
  then show ?case by (simp add: append_all_def)
next
  case (Cons m ms)
  have "currentSessionId (snd (appendMessage ev a m)) = Some sid"
    "stored_title (snd (appendMessage ev a m)) = Some t"
    using appendMessage_title [OF Cons.prems(1,2), of ev m] Cons.prems(3) by simp_all
  then show ?case
    using Cons.IH [of "snd (appendMessage ev a m)"] Cons.prems(3) by (simp add: append_all_def)
qed

lemma append_all_untitled:
  assumes "currentSessionId a = Some sid" and "stored_title a = Some (js ''New session'')"
    and "\<forall>m\<in>set ms. role m = Assistant"
  shows "currentSessionId (append_all ev a ms) = Some sid \<and>
         stored_title (append_all ev a ms) = Some (js ''New session'')"
  using assms
proof (induction ms arbitrary: a)
  case Nil
  then show ?case by (simp add: append_all_def)
next
  case (Cons m ms)
  have "role m \<noteq> User" using Cons.prems(3) by simp
  then have "currentSessionId (snd (appendMessage ev a m)) = Some sid"
    "stored_title (snd (appendMessage ev a m)) = Some (js ''New session'')"
    using appendMessage_title [OF Cons.prems(1,2), of ev m] by simp_all
  then show ?case
    using Cons.IH [of "snd (appendMessage ev a m)"] Cons.prems(3) by (simp add: append_all_def)
qed

text \<open>
  For every other first user message the claim holds: once the first user message is
  appended, the title is its first 60 code units after any further messages.
\<close>

lemma title_from_first_user_message:
  assumes "currentSessionId a = Some sid" and "stored_title a = Some (js ''New session'')"
    and "\<forall>m\<in>set before. role m = Assistant" and "role u = User"
    and "take 60 (content u) \<noteq> js ''New session''"
  shows "stored_title (append_all ev a (before @ u # later)) = Some (take 60 (content u))"
proof -
  let ?a1 = "append_all ev a before"
  have 1: "currentSessionId ?a1 = Some sid" "stored_title ?a1 = Some (js ''New session'')"
    using append_all_untitled [OF assms(1,2,3)] by simp_all
  let ?a2 = "snd (appendMessage ev ?a1 u)"
  have 2: "currentSessionId ?a2 = Some sid" "stored_title ?a2 = Some (take 60 (content u))"
    using appendMessage_title [OF 1, of ev u] assms(4) by simp_all
  have "append_all ev a (before @ u # later) = append_all ev ?a2 later"
    by (simp add: append_all_def)
  then show ?thesis
    using append_all_titled [OF 2 assms(5)] by simp
qed

section \<open>Context assembly\<close>

lemma getIndex_idem: "getIndex ev (snd (getIndex ev a)) = getIndex ev a"
  by (auto simp: getIndex_def split: option.splits)

lemma query_state: "snd (queryRelevantContext ev a q k f) = snd (getIndex ev a)"
  by (auto simp: queryRelevantContext_def Let_def split: prod.splits option.splits sum.splits)

lemma query_again:
  "fst (queryRelevantContext ev (snd (getIndex ev a)) q k f) = fst (queryRelevantContext ev a q k f)"
  unfolding queryRelevantContext_def getIndex_idem
  by (cases "getIndex ev a") simp

lemma db_query: "db (snd (queryRelevantContext ev a q k f)) = db a"
  by (simp add: query_state db_getIndex)

lemma push_active_memories_append:
  "push_active_memories st ps = ps @ push_active_memories st []"
  by (simp add: push_active_memories_def Let_def)

lemma push_recent_sessions_append:
  "push_recent_sessions st n ps = ps @ push_recent_sessions st n []"
  by (simp add: push_recent_sessions_def)

lemma try_memories_append:
  "try_memories rs ps = (case try_memories rs [] of Inl e \<Rightarrow> Inl e | Inr qs \<Rightarrow> Inr (ps @ qs))"
  by (simp add: try_memories_def split: sum.splits)

lemma try_sessions_append:
  "try_sessions st rs ps = (case try_sessions st rs [] of Inl e \<Rightarrow> Inl e | Inr qs \<Rightarrow> Inr (ps @ qs))"
  by (simp add: try_sessions_def split: sum.splits)

lemma buildSystemPrompt_sections:
  "buildSystemPrompt ws st n =
     join divider (push_leading ws [] @ push_active_memories st [] @ push_recent_sessions st n [])"
  unfolding buildSystemPrompt_def
  by (subst push_recent_sessions_append, subst push_active_memories_append) simp

lemma sublist_join: "x \<in> set ps \<Longrightarrow> sublist x (join sep ps)"
proof (induction sep ps rule: join.induct)
  case (1 sep)
  then show ?case by simp
next
  case (2 sep y)
  then show ?case by simp
next
  case (3 sep y z zs)
  show ?case
  proof (cases "x = y")
    case True
    then show ?thesis by (simp add: sublist_append_rightI)
  next
    case False
    then have "sublist x (join sep (z # zs))" using 3 by simp
    then obtain p q where "join sep (z # zs) = p @ x @ q"
      by (auto simp: sublist_def)
    then have "join sep (y # z # zs) = (y @ sep @ p) @ x @ q" by simp
    then show ?thesis unfolding sublist_def by blast
  qed
qed

lemma augmented_sections:
  assumes "isVectorEnabled ev"
  shows "fst (buildAugmentedPrompt ev ws a userMessage n) =
     Inr (join divider (push_leading ws [] @ memory_section ev a userMessage @
                        history_section ev a userMessage n))"
proof -
  define ma where "ma = fst (queryRelevantMemories ev a userMessage 10)"
  define a1 where "a1 = snd (queryRelevantMemories ev a userMessage 10)"
  define sa where "sa = fst (queryRelevantSessions ev a1 userMessage 5)"
  define a2 where "a2 = snd (queryRelevantSessions ev a1 userMessage 5)"
  have qm: "queryRelevantMemories ev a userMessage 10 = (ma, a1)"
    by (simp add: ma_def a1_def)
  have qs: "queryRelevantSessions ev a1 userMessage 5 = (sa, a2)"
    by (simp add: sa_def a2_def)
  have a1: "a1 = snd (getIndex ev a)"
    by (simp add: a1_def queryRelevantMemories_def query_state)
  have s: "fst (queryRelevantSessions ev a userMessage 5) = sa"
    by (simp add: sa_def a1 queryRelevantSessions_def query_again)
  have d1: "db a1 = db a"
    by (simp add: a1 db_getIndex)
  have d2: "db a2 = db a"
    by (simp add: a2_def queryRelevantSessions_def db_query d1)
  have m: "memory_section ev a userMessage =
      (case ma of Inl e \<Rightarrow> push_active_memories (db a) []
       | Inr rs \<Rightarrow> (case try_memories rs [] of Inl e \<Rightarrow> push_active_memories (db a) [] | Inr ps \<Rightarrow> ps))"
    by (simp add: memory_section_def qm)
  have h: "history_section ev a userMessage n =
      (case sa of Inl e \<Rightarrow> push_recent_sessions (db a) n []
       | Inr rs \<Rightarrow> (case try_sessions (db a) rs [] of Inl e \<Rightarrow> push_recent_sessions (db a) n [] | Inr ps \<Rightarrow> ps))"
    by (simp add: history_section_def s)
  show ?thesis
    using assms
    by (cases ma; cases sa)
       (auto simp: buildAugmentedPrompt_def Let_def qm qs d1 d2 m h try_memories_def
          try_sessions_def push_active_memories_def push_recent_sessions_def
          split: sum.splits)
qed

lemmas context_eval =
  readFile_def loadSkillsCatalog_def role_of_def getRecentSessions_def summarizeSession_def
  divider_def push_leading_def push_active_memories_def push_recent_sessions_def
  buildSystemPrompt_def try_memories_def excerpt_line_def try_sessions_def
  buildAugmentedPrompt_def memory_section_def history_section_def

lemmas vector_eval =
  getIndex_def isVectorEnabled_def truthy_def to_result_def queryRelevantContext_def
  filter_expression_def
  queryRelevantMemories_def queryRelevantSessions_def

lemma sample_db:
  "db sample_app =
     \<lparr>sessions = [\<lparr>s_id = js ''s1'', s_title = Some (js ''Coffee Chat''), s_summary = None,
                    s_created_at = js ''2025-01-01T00:00:00Z'', s_updated_at = js ''2025-01-01T00:00:00Z'',
                    s_tags = []\<rparr>],
      messages = [\<lparr>m_id = 1, m_session_id = js ''s1'', m_role = js ''user'',
                    m_content = js ''I love coffee'', m_timestamp = js ''2025-01-01T00:00:01Z'',
                    m_token_count = None\<rparr>],
      memories = [\<lparr>mem_id = 1, fact = js ''User likes coffee'', category = js ''general'',
                    source_session = Some (js ''s1''), mem_created_at = js ''2025-01-01T00:00:02Z'',
                    superseded_by = None\<rparr>],
      next_message_id = 2, next_memory_id = 2\<rparr>"
  by (simp add: sample_app_def empty_app_def store_eval js_Nil js_Cons)

text \<open>
  Claim C4. With the semantic index enabled, \<open>buildAugmentedPrompt\<close> never rejects: it
  returns the leading sections, the memory section and the history section joined by the
  divider. The memory section is decided by the memory query alone and the history section
  by the session query alone: when the memory query throws, the memory section is the list
  of all active memories, as the baseline prompt renders it, whatever the session query
  does; when the session query throws, the history section is the recency-ordered
  sessions, as the baseline prompt renders them, whatever the memory query does. Every
  part of either section stands in the prompt as it is. The baseline prompt is the same
  leading sections followed by the two fallback sections.
\<close>

theorem augmented_fallbacks:
  assumes "isVectorEnabled ev"
  shows "fst (buildAugmentedPrompt ev ws a userMessage n) =
           Inr (join divider (push_leading ws [] @ memory_section ev a userMessage @
                              history_section ev a userMessage n)) \<and>
         (\<forall>e. fst (queryRelevantMemories ev a userMessage 10) = Inl e \<longrightarrow>
              memory_section ev a userMessage = push_active_memories (db a) []) \<and>
         (\<forall>e. fst (queryRelevantSessions ev a userMessage 5) = Inl e \<longrightarrow>
              history_section ev a userMessage n = push_recent_sessions (db a) n []) \<and>
         (\<forall>part\<in>set (memory_section ev a userMessage @ history_section ev a userMessage n).
              sublist part (join divider (push_leading ws [] @ memory_section ev a userMessage @
                                          history_section ev a userMessage n))) \<and>
         buildSystemPrompt ws (db a) n =
           join divider (push_leading ws [] @ push_active_memories (db a) [] @
                         push_recent_sessions (db a) n [])"
proof -
  have "sublist part (join divider (push_leading ws [] @ memory_section ev a userMessage @
                                          history_section ev a userMessage n))"
    if "part \<in> set (memory_section ev a userMessage @ history_section ev a userMessage n)" for part
    using that by (intro sublist_join) auto
  then show ?thesis
    using augmented_sections [OF assms, of ws a userMessage n] buildSystemPrompt_sections [of ws "db a" n]
    by (auto simp: memory_section_def history_section_def)
qed

theorem augmented_fallbacks_witness:
  "isVectorEnabled memory_down_env \<and>
   fst (queryRelevantMemories memory_down_env sample_app (js ''coffee?'') 10) =
     Inl (ServiceError (js ''fetch failed'')) \<and>
   memory_section memory_down_env sample_app (js ''coffee?'') =
     [js ''# Active Memories\<newline>\<newline>- User likes coffee''] \<and>
   fst (buildAugmentedPrompt memory_down_env sample_ws sample_app (js ''coffee?'') 3) =
     Inr (js ''You are Retain.\<newline>\<newline>---\<newline>\<newline># Active Memories\<newline>\<newline>- User likes coffee\<newline>\<newline>---\<newline>\<newline># Relevant Past Conversations\<newline>\<newline>## '' @ [34] @ js ''Coffee Chat'' @ [34] @ js '' (2025-01-01)\<newline>  User: I love coffee\<newline>'') \<and>
   isVectorEnabled session_down_env \<and>
   fst (queryRelevantSessions session_down_env sample_app (js ''coffee?'') 5) =
     Inl (ServiceError (js ''fetch failed'')) \<and>
   history_section session_down_env sample_app (js ''coffee?'') 3 =
     [js ''## Past session: '' @ [34] @ js ''Coffee Chat'' @ [34] @ js ''\<newline>User: I love coffee'']"
proof -
  have en: "isVectorEnabled memory_down_env"
    by (simp add: memory_down_env_def vector_eval js_def)
  note th = augmented_fallbacks [OF en, of sample_ws sample_app "js ''coffee?''" 3]
  have q: "fst (queryRelevantMemories memory_down_env sample_app (js ''coffee?'') 10) =
     Inl (ServiceError (js ''fetch failed''))"
    by (simp add: memory_down_env_def sample_app_def empty_app_def vector_eval memory_filter_def js_Nil js_Cons)
  have "memory_section memory_down_env sample_app (js ''coffee?'') = push_active_memories (db sample_app) []"
    using th [THEN conjunct2, THEN conjunct1, THEN spec, THEN mp, OF q] .
  then have m: "memory_section memory_down_env sample_app (js ''coffee?'') =
     [js ''# Active Memories\<newline>\<newline>- User likes coffee'']"
    by (simp add: sample_db push_active_memories_def store_eval js_Nil js_Cons)
  have qs: "fst (queryRelevantSessions memory_down_env sample_app (js ''coffee?'') 5) =
     Inr [to_result coffee_match]"
    by (simp add: memory_down_env_def sample_app_def empty_app_def vector_eval memory_filter_def js_Nil js_Cons)
  have h: "history_section memory_down_env sample_app (js ''coffee?'') 3 =
     [js ''# Relevant Past Conversations\<newline>\<newline>## '' @ [34] @ js ''Coffee Chat'' @ [34] @
      js '' (2025-01-01)\<newline>  User: I love coffee\<newline>'']"
    unfolding history_section_def qs
    by (simp add: sample_db coffee_match_def to_result_def try_sessions_def excerpt_line_def
        store_eval js_Nil js_Cons)
  have l: "push_leading sample_ws [] = [js ''You are Retain.'']"
    by (simp add: sample_ws_def context_eval string_eval)
  have "fst (buildAugmentedPrompt memory_down_env sample_ws sample_app (js ''coffee?'') 3) =
     Inr (join divider (push_leading sample_ws [] @ memory_section memory_down_env sample_app (js ''coffee?'') @
                              history_section memory_down_env sample_app (js ''coffee?'') 3))"
    using th by (elim conjE)
  then have p: "fst (buildAugmentedPrompt memory_down_env sample_ws sample_app (js ''coffee?'') 3) =
     Inr (js ''You are Retain.\<newline>\<newline>---\<newline>\<newline># Active Memories\<newline>\<newline>- User likes coffee\<newline>\<newline>---\<newline>\<newline># Relevant Past Conversations\<newline>\<newline>## '' @ [34] @ js ''Coffee Chat'' @ [34] @ js '' (2025-01-01)\<newline>  User: I love coffee\<newline>'')"
    unfolding l m h by (simp add: divider_def js_Nil js_Cons)
  have en2: "isVectorEnabled session_down_env"
    by (simp add: session_down_env_def memory_down_env_def vector_eval js_def)
  note th2 = augmented_fallbacks [OF en2, of sample_ws sample_app "js ''coffee?''" 3]
  have q2: "fst (queryRelevantSessions session_down_env sample_app (js ''coffee?'') 5) =
     Inl (ServiceError (js ''fetch failed''))"
    by (simp add: session_down_env_def memory_down_env_def sample_app_def empty_app_def vector_eval
        memory_filter_def js_Nil js_Cons)
  have "history_section session_down_env sample_app (js ''coffee?'') 3 =
      push_recent_sessions (db sample_app) 3 []"
    using th2 [THEN conjunct2, THEN conjunct2, THEN conjunct1, THEN spec, THEN mp, OF q2] .
  then have h2: "history_section session_down_env sample_app (js ''coffee?'') 3 =
     [js ''## Past session: '' @ [34] @ js ''Coffee Chat'' @ [34] @ js ''\<newline>User: I love coffee'']"
    unfolding sample_db
    by (simp add: push_recent_sessions_def getRecentSessions_def summarizeSession_def role_of_def
        store_eval js_Nil js_Cons)
  show ?thesis
    using en q m p en2 q2 h2 by (intro conjI)
qed

text \<open>
  Claim C10. When the semantic index is disabled (the endpoint or the credential is not
  set, or is empty), \<open>buildAugmentedPrompt\<close> returns exactly \<open>buildSystemPrompt\<close> of the
  same number of sessions, for every user message, and leaves the state as it was.
\<close>

theorem disabled_vector_equivalence:
  "\<not> isVectorEnabled ev \<Longrightarrow>
     buildAugmentedPrompt ev ws a userMessage n = (Inr (buildSystemPrompt ws (db a) n), a)"
  by (simp add: buildAugmentedPrompt_def)

theorem disabled_vector_equivalence_witness:
  "\<not> isVectorEnabled plain_env \<and>
   buildAugmentedPrompt plain_env sample_ws sample_app (js ''coffee?'') 3 =
     (Inr (buildSystemPrompt sample_ws (db sample_app) 3), sample_app) \<and>
   buildSystemPrompt sample_ws (db sample_app) 3 =
     js ''You are Retain.\<newline>\<newline>---\<newline>\<newline># Active Memories\<newline>\<newline>- User likes coffee\<newline>\<newline>---\<newline>\<newline>## Past session: '' @ [34] @ js ''Coffee Chat'' @ [34] @ js ''\<newline>User: I love coffee''"
proof -
  have off: "\<not> isVectorEnabled plain_env"
    by (simp add: plain_env_def vector_eval)
  note th = disabled_vector_equivalence [OF off, of sample_ws sample_app "js ''coffee?''" 3]
  have b: "buildSystemPrompt sample_ws (db sample_app) 3 =
     js ''You are Retain.\<newline>\<newline>---\<newline>\<newline># Active Memories\<newline>\<newline>- User likes coffee\<newline>\<newline>---\<newline>\<newline>## Past session: '' @ [34] @ js ''Coffee Chat'' @ [34] @ js ''\<newline>User: I love coffee''"
    unfolding sample_db
    by (simp add: sample_ws_def context_eval string_eval store_eval)
  show ?thesis
    using off th b by (intro conjI)
qed

lemma getIndex_None_iff:
  "fst (getIndex ev a) = None \<longleftrightarrow> cached_index a = None \<and> \<not> isVectorEnabled ev"
  by (auto simp: getIndex_def isVectorEnabled_def truthy_def split: option.splits)

text \<open>
  Claim C5, as amended. \<open>queryRelevantContext\<close> has no index exactly when none is cached
  and the endpoint or the credential is missing; it then returns the empty sequence. With
  an index it sends one query (the text, \<open>topK\<close>, metadata included, the type filter) and
  returns the service's matches in the service's order, each with its id as a string, its
  score and its stored metadata: at most \<open>topK\<close> results in descending score whenever the
  service answers so. When the query throws, the error is the caller's: nothing in
  \<open>queryRelevantContext\<close> catches it.
\<close>

theorem query_relevant_context:
  "(fst (getIndex ev a) = None \<longleftrightarrow> cached_index a = None \<and> \<not> isVectorEnabled ev) \<and>
   (fst (getIndex ev a) = None \<longrightarrow> fst (queryRelevantContext ev a query topK typeFilter) = Inr []) \<and>
   (\<forall>i. fst (getIndex ev a) = Some i \<longrightarrow>
      (\<forall>e. index_query ev i
              \<lparr>q_data = query, q_topK = topK, q_includeMetadata = True,
               q_filter = filter_expression typeFilter\<rparr> = Inl e \<longrightarrow>
           fst (queryRelevantContext ev a query topK typeFilter) = Inl e) \<and>
      (\<forall>ms. index_query ev i
              \<lparr>q_data = query, q_topK = topK, q_includeMetadata = True,
               q_filter = filter_expression typeFilter\<rparr> = Inr ms \<longrightarrow>
           (\<exists>rs. fst (queryRelevantContext ev a query topK typeFilter) = Inr rs \<and>
              length rs = length ms \<and>
              map vr_score rs = map raw_score ms \<and>
              map vr_metadata rs = map raw_metadata ms \<and>
              map vr_id rs = map (\<lambda>m. String_of_id (raw_id m)) ms \<and>
              (length ms \<le> topK \<longrightarrow> length rs \<le> topK) \<and>
              (sorted_wrt (\<ge>) (map raw_score ms) \<longrightarrow> sorted_wrt (\<ge>) (map vr_score rs)))))"
proof -
  have none: "fst (queryRelevantContext ev a query topK typeFilter) = Inr []"
    if "fst (getIndex ev a) = None"
    using that by (cases "getIndex ev a") (simp add: queryRelevantContext_def)
  have some: "fst (queryRelevantContext ev a query topK typeFilter) =
      (case index_query ev i
              \<lparr>q_data = query, q_topK = topK, q_includeMetadata = True,
               q_filter = filter_expression typeFilter\<rparr> of
         Inl e \<Rightarrow> Inl e | Inr ms \<Rightarrow> Inr (map to_result ms))"
    if "fst (getIndex ev a) = Some i" for i
    using that by (cases "getIndex ev a") (simp add: queryRelevantContext_def split: sum.splits)
  have inl: "fst (queryRelevantContext ev a query topK typeFilter) = Inl e"
    if "fst (getIndex ev a) = Some i"
      "index_query ev i \<lparr>q_data = query, q_topK = topK, q_includeMetadata = True,
               q_filter = filter_expression typeFilter\<rparr> = Inl e" for i e
    using some [OF that(1)] that(2) by simp
  have inr: "\<exists>rs. fst (queryRelevantContext ev a query topK typeFilter) = Inr rs \<and>
              length rs = length ms \<and>
              map vr_score rs = map raw_score ms \<and>
              map vr_metadata rs = map raw_metadata ms \<and>
              map vr_id rs = map (\<lambda>m. String_of_id (raw_id m)) ms \<and>
              (length ms \<le> topK \<longrightarrow> length rs \<le> topK) \<and>
              (sorted_wrt (\<ge>) (map raw_score ms) \<longrightarrow> sorted_wrt (\<ge>) (map vr_score rs))"
    if "fst (getIndex ev a) = Some i"
      "index_query ev i \<lparr>q_data = query, q_topK = topK, q_includeMetadata = True,
               q_filter = filter_expression typeFilter\<rparr> = Inr ms" for i ms
  proof -
    have sc: "map vr_score (map to_result ms) = map raw_score ms"
      by (simp add: to_result_def)
    have "fst (queryRelevantContext ev a query topK typeFilter) = Inr (map to_result ms)"
      using some [OF that(1)] that(2) by simp
    moreover have "map vr_metadata (map to_result ms) = map raw_metadata ms"
      "map vr_id (map to_result ms) = map (\<lambda>m. String_of_id (raw_id m)) ms"
      by (simp_all add: to_result_def)
    ultimately show ?thesis
      unfolding sc [symmetric] by (intro exI [of _ "map to_result ms"]) simp
  qed
  show ?thesis
    apply (intro conjI allI impI)
       apply (rule getIndex_None_iff)
      apply (erule none)
     apply (erule (1) inl)
    apply (erule (1) inr)
    done
qed

text \<open>
  With the endpoint and the credential set and the service failing, the query raises to
  its caller instead of returning an empty sequence.
\<close>

theorem query_raises_counterexample:
  "fst (queryRelevantContext memory_down_env empty_app (js ''coffee?'') 10 (Some (js ''memory''))) =
     Inl (ServiceError (js ''fetch failed''))"
  by (simp add: memory_down_env_def empty_app_def vector_eval memory_filter_def js_Nil js_Cons)

theorem query_relevant_context_witness:
  "fst (getIndex plain_env empty_app) = None \<and>
   fst (queryRelevantContext plain_env empty_app (js ''coffee?'') 5 None) = Inr [] \<and>
   fst (getIndex memory_down_env empty_app) =
     Some \<lparr>idx_url = js ''https://vector.example'', idx_token = js ''token''\<rparr> \<and>
   fst (queryRelevantContext memory_down_env empty_app (js ''coffee?'') 5 (Some (js ''session''))) =
     Inr [to_result coffee_match] \<and>
   fst (queryRelevantContext memory_down_env empty_app (js ''coffee?'') 5 (Some (js ''memory''))) =
     Inl (ServiceError (js ''fetch failed''))"
proof -
  let ?i = "\<lparr>idx_url = js ''https://vector.example'', idx_token = js ''token''\<rparr>"
  have g0: "fst (getIndex plain_env empty_app) = None"
    by (simp add: plain_env_def empty_app_def vector_eval)
  note off = query_relevant_context [of plain_env empty_app "js ''coffee?''" 5 None]
  have 1: "fst (queryRelevantContext plain_env empty_app (js ''coffee?'') 5 None) = Inr []"
    using off [THEN conjunct2, THEN conjunct1] g0 by (rule mp)
  have g1: "fst (getIndex memory_down_env empty_app) = Some ?i"
    by (simp add: memory_down_env_def empty_app_def vector_eval js_Nil js_Cons)
  have a1: "index_query memory_down_env ?i
      \<lparr>q_data = js ''coffee?'', q_topK = 5, q_includeMetadata = True,
       q_filter = filter_expression (Some (js ''session''))\<rparr> = Inr [coffee_match]"
    by (simp add: memory_down_env_def filter_expression_def memory_filter_def js_Nil js_Cons)
  have a2: "index_query memory_down_env ?i
      \<lparr>q_data = js ''coffee?'', q_topK = 5, q_includeMetadata = True,
       q_filter = filter_expression (Some (js ''memory''))\<rparr> = Inl (ServiceError (js ''fetch failed''))"
    by (simp add: memory_down_env_def filter_expression_def memory_filter_def js_Nil js_Cons)
  note down = query_relevant_context [of memory_down_env empty_app "js ''coffee?''" 5 "Some (js ''memory'')",
      THEN conjunct2, THEN conjunct2, THEN spec, THEN mp, OF g1]
  have 3: "fst (queryRelevantContext memory_down_env empty_app (js ''coffee?'') 5 (Some (js ''memory''))) =
     Inl (ServiceError (js ''fetch failed''))"
    using down [THEN conjunct1, THEN spec, THEN mp, OF a2] .
  note up = query_relevant_context [of memory_down_env empty_app "js ''coffee?''" 5 "Some (js ''session'')",
      THEN conjunct2, THEN conjunct2, THEN spec, THEN mp, OF g1]
  obtain rs where rs: "fst (queryRelevantContext memory_down_env empty_app (js ''coffee?'') 5
        (Some (js ''session''))) = Inr rs"
      "length rs = length [coffee_match]"
      "map vr_score rs = map raw_score [coffee_match]"
      "map vr_metadata rs = map raw_metadata [coffee_match]"
      "map vr_id rs = map (\<lambda>m. String_of_id (raw_id m)) [coffee_match]"
    using up [THEN conjunct2, THEN spec, THEN mp, OF a1] by (elim exE conjE)
  then obtain r where r: "rs = [r]" by (cases rs) auto
  have "r = to_result coffee_match"
    using rs(3,4,5) unfolding r by (simp add: to_result_def)
  then have 2: "fst (queryRelevantContext memory_down_env empty_app (js ''coffee?'') 5
        (Some (js ''session''))) = Inr [to_result coffee_match]"
    using rs(1) r by simp
  show ?thesis
    using g0 1 g1 2 3 by (intro conjI)
qed























section \<open>Budget exhaustion of the agent loop\<close>






















end
